theory Spec2Isabelle
  imports Main "HOL-Library.AList"
begin

section \<open>Python values, exceptions and dictionaries\<close>

text \<open>
  The exceptions that the modelled code can raise or let through. \<open>SystemExit\<close> is what
  \<^verbatim>\<open>sys.exit(1)\<close> raises; \<open>CsvError\<close> is \<^verbatim>\<open>csv.Error\<close>; the three last ones come from
  the remote shell and from the database client.
\<close>

datatype error =
    KeyError string
  | ValueError
  | TypeError
  | IndexError
  | CsvError
  | SystemExit int
  | AuthenticationException
  | TimeoutError
  | ConnectionError
  | AttributeError
  | OtherError string

text \<open>
  A field of a row read by \<^verbatim>\<open>csv.DictReader\<close> is a \<^verbatim>\<open>str\<close>, or \<^verbatim>\<open>None\<close> when the line was
  shorter than the header. Text is a \<open>string\<close>: a list of characters with codes below 256.
\<close>

datatype pyval = Str string | NoneVal

text \<open>
  A \<^verbatim>\<open>dict\<close> with \<^verbatim>\<open>str\<close> keys, in insertion order. \<^verbatim>\<open>d[k] = v\<close> replaces the value of an
  existing key in place and appends a new key, which is \<open>AList.update\<close>.
\<close>

type_synonym 'v dict = "(string \<times> 'v) list"

definition dict_contains :: "'v dict \<Rightarrow> string \<Rightarrow> bool" where
  "dict_contains d k = (map_of d k \<noteq> None)"

definition dict_getitem :: "'v dict \<Rightarrow> string \<Rightarrow> error + 'v" where
  "dict_getitem d k = (case map_of d k of None \<Rightarrow> Inl (KeyError k) | Some v \<Rightarrow> Inr v)"

definition dict_setitem :: "'v dict \<Rightarrow> string \<Rightarrow> 'v \<Rightarrow> 'v dict" where
  "dict_setitem d k v = AList.update k v d"

text \<open>\<^verbatim>\<open>d.update(other)\<close>: the items of \<open>other\<close> are stored into \<open>d\<close> in their order.\<close>

definition dict_update :: "'v dict \<Rightarrow> 'v dict \<Rightarrow> 'v dict" where
  "dict_update d other = fold (\<lambda>(k, v) acc. dict_setitem acc k v) other d"

text \<open>
  The tag dictionaries are shared between objects and updated in place, so they live in a
  store: a reference is an index into the list of allocated dictionaries.
\<close>

type_synonym ref = nat
type_synonym heap = "pyval dict list"

definition new_dict :: "pyval dict \<Rightarrow> heap \<Rightarrow> ref \<times> heap" where
  "new_dict d h = (length h, h @ [d])"

definition deref :: "heap \<Rightarrow> ref \<Rightarrow> pyval dict" where
  "deref h r = h ! r"

definition assign :: "heap \<Rightarrow> ref \<Rightarrow> pyval dict \<Rightarrow> heap" where
  "assign h r d = h[r := d]"

subsection \<open>The builtin \<^verbatim>\<open>int\<close>\<close>

text \<open>
  \<^verbatim>\<open>int(s)\<close> for a \<^verbatim>\<open>str\<close> in base ten, as \<^verbatim>\<open>PyLong_FromString\<close> of CPython 3.11 reads it: white
  space on both sides, one optional sign, then digits that single underscores may separate;
  more than 4300 digits are refused (the default \<^verbatim>\<open>int_max_str_digits\<close>). Every failure is a
  \<^verbatim>\<open>ValueError\<close>. Among the characters below 256 the decimal digits are \<^verbatim>\<open>0\<close> to \<^verbatim>\<open>9\<close> and
  the white space accepted here is tab, line feed, vertical tab, form feed, carriage return,
  space, next line (0x85) and no-break space (0xA0).
\<close>

definition is_digit :: "char \<Rightarrow> bool" where
  "is_digit c = (c \<in> set ''0123456789'')"

definition digit_value :: "char \<Rightarrow> int" where
  "digit_value c = int (of_char c) - 48"

definition is_space :: "char \<Rightarrow> bool" where
  "is_space c = (c \<in> {CHR 0x09, CHR 0x0A, CHR 0x0B, CHR 0x0C, CHR 0x0D, CHR '' '',
                       CHR 0x85, CHR 0xA0})"

fun double_underscore :: "string \<Rightarrow> bool" where
  "double_underscore (a # b # cs) =
     ((a = CHR ''_'' \<and> b = CHR ''_'') \<or> double_underscore (b # cs))"
| "double_underscore _ = False"

definition max_str_digits :: nat where
  "max_str_digits = 4300"

definition int_of_str :: "string \<Rightarrow> error + int" where
  "int_of_str s =
     (let s1 = dropWhile is_space s;
          (sign, s2) = (case s1 of
                          c # cs \<Rightarrow> if c = CHR ''+'' then (1, cs)
                                    else if c = CHR ''-'' then (- 1, cs)
                                    else (1, s1)
                        | [] \<Rightarrow> (1, s1));
          body = takeWhile (\<lambda>c. is_digit c \<or> c = CHR ''_'') s2;
          rest = dropWhile (\<lambda>c. is_digit c \<or> c = CHR ''_'') s2;
          digits = filter is_digit body
      in if body = [] \<or> hd body = CHR ''_'' \<or> last body = CHR ''_''
            \<or> double_underscore body \<or> \<not> list_all is_space rest
            \<or> max_str_digits < length digits
         then Inl ValueError
         else Inr (sign * foldl (\<lambda>a c. 10 * a + digit_value c) 0 digits))"

text \<open>\<^verbatim>\<open>int(value)\<close> for a field of a row: \<^verbatim>\<open>int(None)\<close> is a \<^verbatim>\<open>TypeError\<close>.\<close>

fun py_int :: "pyval \<Rightarrow> error + int" where
  "py_int (Str s) = int_of_str s"
| "py_int NoneVal = Inl TypeError"

section \<open>SeriesBuilder\<close>

text \<open>
  The attributes of a \<^verbatim>\<open>SeriesBuilder\<close>. \<open>self_extras_tags\<close> holds a reference: the
  dictionary is the one the caller passed to \<^verbatim>\<open>add_extras_tags\<close>.
\<close>

record SeriesBuilder =
  self_command :: "string option"
  self_extras_tags :: ref
  self_fixed_time :: "int option"
  self_measurements :: "string list"
  self_tags :: "string list"

text \<open>
  A series as \<^verbatim>\<open>_build_series\<close> returns it: the keys \<^verbatim>\<open>measurement\<close>, \<^verbatim>\<open>tags\<close> and
  \<^verbatim>\<open>fields\<close>, and \<^verbatim>\<open>time\<close> when it was set. Its \<^verbatim>\<open>tags\<close> dictionary is created by
  \<^verbatim>\<open>_build_series\<close> and reachable from the series only, so it is kept by value.
\<close>

record SeriesPoint =
  measurement :: string
  tags :: "pyval dict"
  point_fields :: "int dict"
  time :: "int option"

definition SeriesBuilder_init :: "int option \<Rightarrow> heap \<Rightarrow> SeriesBuilder \<times> heap" where
  "SeriesBuilder_init fixed_time_arg h =
     (let (r, h') = new_dict [] h
      in (\<lparr>self_command = None, self_extras_tags = r, self_fixed_time = fixed_time_arg,
           self_measurements = [], self_tags = []\<rparr>, h'))"

text \<open>\<^verbatim>\<open>if self._fixed_time:\<close> holds for an integer other than zero; \<^verbatim>\<open>None\<close> and 0 are false.\<close>

definition truthy_time :: "int option \<Rightarrow> bool" where
  "truthy_time t = (case t of None \<Rightarrow> False | Some n \<Rightarrow> n \<noteq> 0)"

definition build_series ::
  "SeriesBuilder \<Rightarrow> string \<Rightarrow> pyval dict \<Rightarrow> pyval \<Rightarrow> string \<Rightarrow> error + SeriesPoint" where
  "build_series self measurement_arg tags_arg value_arg prefix =
     (case py_int value_arg of
        Inl e \<Rightarrow> Inl e
      | Inr n \<Rightarrow>
          (let new_series = \<lparr>measurement = prefix @ ''_'' @ measurement_arg,
                             tags = [],
                             point_fields = [(''value'', n)],
                             time = None\<rparr>;
               new_series = fold (\<lambda>(key, val) s. s\<lparr>tags := dict_setitem (tags s) key val\<rparr>)
                              tags_arg new_series;
               new_series = (if truthy_time (self_fixed_time self)
                             then new_series\<lparr>time := self_fixed_time self\<rparr>
                             else new_series)
           in Inr new_series))"

definition add_extras_tags :: "SeriesBuilder \<Rightarrow> ref \<Rightarrow> SeriesBuilder" where
  "add_extras_tags self tags_arg = self\<lparr>self_extras_tags := tags_arg\<rparr>"

text \<open>
  The dictionary comprehension \<^verbatim>\<open>{tag: data[tag] for tag in self._tags}\<close>: the first tag
  name that is not a key of the row raises its \<^verbatim>\<open>KeyError\<close>.
\<close>

fun tags_of_row :: "pyval dict \<Rightarrow> string list \<Rightarrow> pyval dict \<Rightarrow> error + pyval dict" where
  "tags_of_row data [] acc = Inr acc"
| "tags_of_row data (tag # ts) acc =
     (case dict_getitem data tag of
        Inl e \<Rightarrow> Inl e
      | Inr v \<Rightarrow> tags_of_row data ts (dict_setitem acc tag v))"

text \<open>
  The loop of \<^verbatim>\<open>parse\<close> over \<^verbatim>\<open>self._measurements\<close>. \<open>merged_tags\<close> is the reference of the
  copy made before the loop; \<^verbatim>\<open>merged_tags.update(...)\<close> writes into that dictionary.
\<close>

fun parse_loop ::
  "SeriesBuilder \<Rightarrow> pyval dict \<Rightarrow> string \<Rightarrow> ref \<Rightarrow> string list \<Rightarrow> SeriesPoint list \<Rightarrow> heap
     \<Rightarrow> (error + SeriesPoint list) \<times> heap" where
  "parse_loop self data prefix merged_tags [] series h = (Inr series, h)"
| "parse_loop self data prefix merged_tags (m # ms) series h =
     (if dict_contains data m then
        (case tags_of_row data (self_tags self) [] of
           Inl e \<Rightarrow> (Inl e, h)
         | Inr row_tags \<Rightarrow>
             (let h1 = assign h merged_tags (dict_update (deref h merged_tags) row_tags)
              in case dict_getitem data m of
                   Inl e \<Rightarrow> (Inl e, h1)
                 | Inr v \<Rightarrow>
                     (case build_series self m (deref h1 merged_tags) v prefix of
                        Inl e \<Rightarrow> (Inl e, h1)
                      | Inr p \<Rightarrow>
                          parse_loop self data prefix merged_tags ms (series @ [p]) h1)))
      else parse_loop self data prefix merged_tags ms series h)"

definition parse ::
  "SeriesBuilder \<Rightarrow> pyval dict \<Rightarrow> string \<Rightarrow> heap \<Rightarrow> (error + SeriesPoint list) \<times> heap" where
  "parse self data prefix h =
     (let (merged_tags, h1) = new_dict (deref h (self_extras_tags self)) h
      in parse_loop self data prefix merged_tags (self_measurements self) [] h1)"

definition PoolSeriesBuilder :: "int option \<Rightarrow> heap \<Rightarrow> SeriesBuilder \<times> heap" where
  "PoolSeriesBuilder fixed_time_arg h =
     (let (self, h') = SeriesBuilder_init fixed_time_arg h
      in (self\<lparr>self_measurements :=
                  [''capacity'',
                   ''virtual_capacity'',
                   ''compression_compressed_capacity'',
                   ''compression_uncompressed_capacity'',
                   ''overallocation'',
                   ''vdisk_count'',
                   ''compression_virtual_capacity'',
                   ''free_capacity'',
                   ''real_capacity'',
                   ''used_capacity''],
                self_tags := [''name'', ''id'']\<rparr>, h'))"

definition VolumeSeriesBuilder :: "int option \<Rightarrow> heap \<Rightarrow> SeriesBuilder \<times> heap" where
  "VolumeSeriesBuilder fixed_time_arg h =
     (let (self, h') = SeriesBuilder_init fixed_time_arg h
      in (self\<lparr>self_measurements :=
                  [''capacity'',
                   ''virtual_capacity'',
                   ''used_capacity'',
                   ''real_capacity'',
                   ''free_capacity'',
                   ''uncompressed_used_capacity''],
                self_tags := [''name'', ''id'', ''vdisk_UID'']\<rparr>, h'))"

section \<open>The \<^verbatim>\<open>csv\<close> readers\<close>

text \<open>
  \<^verbatim>\<open>csv.reader\<close> with the default dialect (delimiter \<^verbatim>\<open>,\<close>, quote character \<^verbatim>\<open>"\<close>,
  doubled quotes, no escape character, not strict), as the state machine of the \<^verbatim>\<open>_csv\<close>
  module of CPython 3.11 runs it; a field longer than the field size limit is an error. A character is \<open>Some c\<close>; \<open>None\<close> is the end-of-line
  signal that the reader sends after the last character of each line it is given.
\<close>

datatype ParserState =
    START_RECORD | START_FIELD | IN_FIELD | IN_QUOTED_FIELD | QUOTE_IN_QUOTED_FIELD | EAT_CRNL

record ReaderObj =
  rd_state :: ParserState
  rd_fields :: "string list"
  rd_field :: string

definition field_limit :: nat where
  "field_limit = 131072"

definition parse_reset :: ReaderObj where
  "parse_reset = \<lparr>rd_state = START_RECORD, rd_fields = [], rd_field = []\<rparr>"

definition parse_save_field :: "ReaderObj \<Rightarrow> ReaderObj" where
  "parse_save_field self = self\<lparr>rd_fields := rd_fields self @ [rd_field self], rd_field := []\<rparr>"

definition parse_add_char :: "ReaderObj \<Rightarrow> char \<Rightarrow> error + ReaderObj" where
  "parse_add_char self c =
     (if field_limit \<le> length (rd_field self) then Inl CsvError
      else Inr (self\<lparr>rd_field := rd_field self @ [c]\<rparr>))"

definition is_newline :: "char option \<Rightarrow> bool" where
  "is_newline c = (c = Some (CHR 0x0A) \<or> c = Some (CHR 0x0D))"

definition end_of_record :: "char option \<Rightarrow> ParserState" where
  "end_of_record c = (if c = None then START_RECORD else EAT_CRNL)"

text \<open>The case \<^verbatim>\<open>START_FIELD\<close>, which the case \<^verbatim>\<open>START_RECORD\<close> falls through to.\<close>

definition start_field :: "ReaderObj \<Rightarrow> char option \<Rightarrow> error + ReaderObj" where
  "start_field self c =
     (if is_newline c \<or> c = None then
        Inr ((parse_save_field self)\<lparr>rd_state := end_of_record c\<rparr>)
      else if c = Some (CHR 0x22) then Inr (self\<lparr>rd_state := IN_QUOTED_FIELD\<rparr>)
      else if c = Some (CHR '','') then Inr (parse_save_field self)
      else (case parse_add_char self (the c) of
              Inl e \<Rightarrow> Inl e
            | Inr self' \<Rightarrow> Inr (self'\<lparr>rd_state := IN_FIELD\<rparr>)))"

definition parse_process_char :: "ReaderObj \<Rightarrow> char option \<Rightarrow> error + ReaderObj" where
  "parse_process_char self c =
     (case rd_state self of
        START_RECORD \<Rightarrow>
          (if c = None then Inr self
           else if is_newline c then Inr (self\<lparr>rd_state := EAT_CRNL\<rparr>)
           else start_field (self\<lparr>rd_state := START_FIELD\<rparr>) c)
      | START_FIELD \<Rightarrow> start_field self c
      | IN_FIELD \<Rightarrow>
          (if is_newline c \<or> c = None then
             Inr ((parse_save_field self)\<lparr>rd_state := end_of_record c\<rparr>)
           else if c = Some (CHR '','') then
             Inr ((parse_save_field self)\<lparr>rd_state := START_FIELD\<rparr>)
           else parse_add_char self (the c))
      | IN_QUOTED_FIELD \<Rightarrow>
          (if c = None then Inr self
           else if c = Some (CHR 0x22) then Inr (self\<lparr>rd_state := QUOTE_IN_QUOTED_FIELD\<rparr>)
           else parse_add_char self (the c))
      | QUOTE_IN_QUOTED_FIELD \<Rightarrow>
          (if c = Some (CHR 0x22) then
             (case parse_add_char self (the c) of
                Inl e \<Rightarrow> Inl e
              | Inr self' \<Rightarrow> Inr (self'\<lparr>rd_state := IN_QUOTED_FIELD\<rparr>))
           else if c = Some (CHR '','') then
             Inr ((parse_save_field self)\<lparr>rd_state := START_FIELD\<rparr>)
           else if is_newline c \<or> c = None then
             Inr ((parse_save_field self)\<lparr>rd_state := end_of_record c\<rparr>)
           else (case parse_add_char self (the c) of
                   Inl e \<Rightarrow> Inl e
                 | Inr self' \<Rightarrow> Inr (self'\<lparr>rd_state := IN_FIELD\<rparr>)))
      | EAT_CRNL \<Rightarrow>
          (if is_newline c then Inr self
           else if c = None then Inr (self\<lparr>rd_state := START_RECORD\<rparr>)
           else Inl CsvError))"

text \<open>One line of the input: each of its characters, then the end-of-line signal.\<close>

fun process_chars :: "ReaderObj \<Rightarrow> string \<Rightarrow> error + ReaderObj" where
  "process_chars self [] = parse_process_char self None"
| "process_chars self (c # cs) =
     (case parse_process_char self (Some c) of
        Inl e \<Rightarrow> Inl e
      | Inr self' \<Rightarrow> process_chars self' cs)"

text \<open>
  All the rows that iterating the reader gives, and the \<^verbatim>\<open>csv.Error\<close> that ends the
  iteration if there is one. A record goes on into the next line while the parser has not
  come back to \<^verbatim>\<open>START_RECORD\<close> (a quoted field that holds a line break); when the lines run
  out inside a record, the record ends there.
\<close>

fun reader_rows :: "ReaderObj \<Rightarrow> string list \<Rightarrow> string list list \<times> error option" where
  "reader_rows self [] =
     (if rd_field self \<noteq> [] \<or> rd_state self = IN_QUOTED_FIELD
      then ([rd_fields (parse_save_field self)], None)
      else ([], None))"
| "reader_rows self (line # lines) =
     (case process_chars self line of
        Inl e \<Rightarrow> ([], Some e)
      | Inr self' \<Rightarrow>
          (if rd_state self' \<noteq> START_RECORD then reader_rows self' lines
           else (case reader_rows parse_reset lines of
                   (rows, e) \<Rightarrow> (rd_fields self' # rows, e))))"

definition csv_reader :: "string list \<Rightarrow> string list list \<times> error option" where
  "csv_reader lines = reader_rows parse_reset lines"

text \<open>
  One row of \<^verbatim>\<open>csv.DictReader\<close>: \<^verbatim>\<open>dict(zip(fieldnames, row))\<close>, then \<^verbatim>\<open>None\<close> for the field
  names that a short row leaves without a value. For a long row \<^verbatim>\<open>DictReader\<close> also stores
  the surplus fields, as a list, under the key \<^verbatim>\<open>None\<close>; the keys here are the \<^verbatim>\<open>str\<close> keys,
  the only ones that this program looks up.
\<close>

definition dict_row :: "string list \<Rightarrow> string list \<Rightarrow> pyval dict" where
  "dict_row fieldnames row =
     (let d = fold (\<lambda>(k, v) acc. dict_setitem acc k (Str v)) (zip fieldnames row) []
      in if length row < length fieldnames
         then fold (\<lambda>k acc. dict_setitem acc k NoneVal) (drop (length row) fieldnames) d
         else d)"

text \<open>The first row is the header; empty rows after it are skipped.\<close>

definition DictReader :: "string list \<Rightarrow> pyval dict list \<times> error option" where
  "DictReader lines =
     (case csv_reader lines of
        ([], e) \<Rightarrow> ([], e)
      | (fieldnames # rows, e) \<Rightarrow> (map (dict_row fieldnames) (filter (\<lambda>r. r \<noteq> []) rows), e))"

section \<open>The collectors\<close>

text \<open>
  The remote shell is a parameter: \<open>connect address login password\<close> is the session, a
  function from a command to the lines of its standard output, or the exception that
  \<^verbatim>\<open>paramiko\<close> raises. Each line is as iterating \<^verbatim>\<open>stdout\<close> gives it.
\<close>

type_synonym session = "string \<Rightarrow> string list"
type_synonym connector = "string \<Rightarrow> string \<Rightarrow> string \<Rightarrow> error + session"

record Equipment =
  tags_ref :: ref
  address :: string
  login :: string
  password :: string

record SSHCollector =
  self_builder :: "SeriesBuilder option"
  self_address :: string
  self_user :: string
  self_password :: string
  self_client :: session

definition SSHCollector_init :: "connector \<Rightarrow> Equipment \<Rightarrow> error + SSHCollector" where
  "SSHCollector_init connect kwargs =
     (case connect (address kwargs) (login kwargs) (password kwargs) of
        Inl e \<Rightarrow>
          (if e = AuthenticationException then Inl (SystemExit 1)
           else if e = TimeoutError then Inl (SystemExit 1)
           else Inl e)
      | Inr client \<Rightarrow>
          Inr \<lparr>self_builder = None, self_address = address kwargs, self_user = login kwargs,
               self_password = password kwargs, self_client = client\<rparr>)"

definition send_command :: "SSHCollector \<Rightarrow> string \<Rightarrow> string list" where
  "send_command self command = self_client self command"

definition add_series_builder :: "SSHCollector \<Rightarrow> SeriesBuilder \<Rightarrow> SSHCollector" where
  "add_series_builder self builder = self\<lparr>self_builder := Some builder\<rparr>"

text \<open>
  The comprehension \<^verbatim>\<open>[self._builder.parse(line, prefix) for line in ...]\<close>: one element for
  each row, which is the list that \<open>parse\<close> returns for that row.
\<close>

fun parse_each ::
  "SeriesBuilder option \<Rightarrow> string \<Rightarrow> pyval dict list \<Rightarrow> heap
     \<Rightarrow> (error + SeriesPoint list list) \<times> heap" where
  "parse_each builder prefix [] h = (Inr [], h)"
| "parse_each builder prefix (line # lines) h =
     (case builder of
        None \<Rightarrow> (Inl AttributeError, h)
      | Some b \<Rightarrow>
          (case parse b line prefix h of
             (Inl e, h1) \<Rightarrow> (Inl e, h1)
           | (Inr series, h1) \<Rightarrow>
               (case parse_each builder prefix lines h1 of
                  (Inl e, h2) \<Rightarrow> (Inl e, h2)
                | (Inr rest, h2) \<Rightarrow> (Inr (series # rest), h2))))"

definition PoolSSHCollector_collect ::
  "SSHCollector \<Rightarrow> heap \<Rightarrow> (error + SeriesPoint list list) \<times> heap" where
  "PoolSSHCollector_collect self h =
     (let stdout = send_command self ''lsmdiskgrp -bytes -delim ,'';
          (rows, err) = DictReader stdout
      in case parse_each (self_builder self) ''pool'' rows h of
           (Inl e, h1) \<Rightarrow> (Inl e, h1)
         | (Inr result, h1) \<Rightarrow>
             (case err of Some e \<Rightarrow> (Inl e, h1) | None \<Rightarrow> (Inr result, h1)))"

text \<open>\<^verbatim>\<open>{line[0]: line[1] for line in reader if line}\<close>\<close>

fun details_of_rows :: "string list list \<Rightarrow> pyval dict \<Rightarrow> error + pyval dict" where
  "details_of_rows [] acc = Inr acc"
| "details_of_rows (line # rest) acc =
     (if line \<noteq> [] then
        (case line of
           k # v # _ \<Rightarrow> details_of_rows rest (dict_setitem acc k (Str v))
         | _ \<Rightarrow> Inl IndexError)
      else details_of_rows rest acc)"

text \<open>\<^verbatim>\<open>'%s' % identifier\<close>\<close>

fun format_s :: "pyval \<Rightarrow> string" where
  "format_s (Str s) = s"
| "format_s NoneVal = ''None''"

definition get_volume_details :: "SSHCollector \<Rightarrow> pyval \<Rightarrow> error + pyval dict" where
  "get_volume_details self identifier =
     (let stdout = send_command self (''lsvdisk -bytes -delim , '' @ format_s identifier);
          (rows, err) = csv_reader stdout
      in case details_of_rows rows [] of
           Inl e \<Rightarrow> Inl e
         | Inr d \<Rightarrow> (case err of Some e \<Rightarrow> Inl e | None \<Rightarrow> Inr d))"

fun volume_details_loop ::
  "SSHCollector \<Rightarrow> pyval dict list \<Rightarrow> pyval dict list \<Rightarrow> error + pyval dict list" where
  "volume_details_loop self [] volume_details = Inr volume_details"
| "volume_details_loop self (line # lines) volume_details =
     (case dict_getitem line ''id'' of
        Inl e \<Rightarrow> Inl e
      | Inr identifier \<Rightarrow>
          (case get_volume_details self identifier of
             Inl e \<Rightarrow> Inl e
           | Inr d \<Rightarrow> volume_details_loop self lines (volume_details @ [d])))"

definition VolumeSSHCollector_collect ::
  "SSHCollector \<Rightarrow> heap \<Rightarrow> (error + SeriesPoint list list) \<times> heap" where
  "VolumeSSHCollector_collect self h =
     (let stdout = send_command self ''lsvdisk -bytes -delim ,'';
          (rows, err) = DictReader stdout
      in case volume_details_loop self rows [] of
           Inl e \<Rightarrow> (Inl e, h)
         | Inr volume_details \<Rightarrow>
             (case err of
                Some e \<Rightarrow> (Inl e, h)
              | None \<Rightarrow> parse_each (self_builder self) ''volume'' volume_details h))"

section \<open>ConfigFile\<close>

text \<open>
  What \<^verbatim>\<open>configparser\<close> has read: the sections other than the default one, in file order,
  each with its options as \<^verbatim>\<open>self._conf[section]\<close> iterates and returns them (option
  names in lower case, default options included, values interpolated).
\<close>

type_synonym config = "(string \<times> string dict) list"

datatype config_source = NotAFile | ParsingError | Parsed config

definition ConfigFile_init :: "config_source \<Rightarrow> error + config" where
  "ConfigFile_init file =
     (case file of
        NotAFile \<Rightarrow> Inl (SystemExit 1)
      | ParsingError \<Rightarrow> Inl (SystemExit 1)
      | Parsed conf \<Rightarrow> Inr conf)"

definition conf_getitem :: "config \<Rightarrow> string \<Rightarrow> error + string dict" where
  "conf_getitem conf section =
     (case map_of conf section of None \<Rightarrow> Inl (KeyError section) | Some sec \<Rightarrow> Inr sec)"

definition sections :: "config \<Rightarrow> string list" where
  "sections conf = map fst conf"

text \<open>\<^verbatim>\<open>x if x else default\<close> for a \<^verbatim>\<open>str\<close>: the empty string is false.\<close>

definition or_else :: "string \<Rightarrow> pyval \<Rightarrow> pyval" where
  "or_else x alt = (if x \<noteq> [] then Str x else alt)"

definition get_influxdb :: "config \<Rightarrow> error + pyval dict" where
  "get_influxdb self_conf =
     (case conf_getitem self_conf ''INFLUXDB'' of
        Inl e \<Rightarrow> Inl e
      | Inr influxdb \<Rightarrow>
     (case dict_getitem influxdb ''address'' of
        Inl e \<Rightarrow> Inl e
      | Inr address_val \<Rightarrow>
     (case dict_getitem influxdb ''username'' of
        Inl e \<Rightarrow> Inl e
      | Inr username_val \<Rightarrow>
     (case dict_getitem influxdb ''password'' of
        Inl e \<Rightarrow> Inl e
      | Inr password_val \<Rightarrow>
     (case dict_getitem influxdb ''database'' of
        Inl e \<Rightarrow> Inl e
      | Inr database_val \<Rightarrow>
          Inr [(''address'', Str address_val),
               (''username'', or_else username_val NoneVal),
               (''password'', or_else password_val NoneVal),
               (''database'', or_else database_val (Str ''svc2influxdb''))])))))"

text \<open>
  The loop \<^verbatim>\<open>for item in self._conf[section]\<close> of \<^verbatim>\<open>get_svc\<close>, which writes into the
  dictionary \<^verbatim>\<open>equipment['tags']\<close>.
\<close>

fun svc_items :: "string dict \<Rightarrow> string list \<Rightarrow> ref \<Rightarrow> heap \<Rightarrow> error option \<times> heap" where
  "svc_items sec [] t h = (None, h)"
| "svc_items sec (item # items) t h =
     (if item \<notin> set [''name'', ''address'', ''login'', ''password''] then
        (case dict_getitem sec item of
           Inl e \<Rightarrow> (Some e, h)
         | Inr v \<Rightarrow> svc_items sec items t (assign h t (dict_setitem (deref h t) item (Str v))))
      else svc_items sec items t h)"

text \<open>
  One turn of the loop of \<^verbatim>\<open>get_svc\<close> for a section other than \<^verbatim>\<open>INFLUXDB\<close>, up to its
  \<^verbatim>\<open>yield\<close>. The generator is resumed by the loop of the main program, one section at a
  time, so what is yielded is read before the next turn changes \<^verbatim>\<open>equipment\<close>.
\<close>

definition get_svc_section :: "config \<Rightarrow> string \<Rightarrow> heap \<Rightarrow> (error + Equipment) \<times> heap" where
  "get_svc_section self_conf section h =
     (let (t, h1) = new_dict [(''svc'', Str section)] h
      in case conf_getitem self_conf section of
           Inl e \<Rightarrow> (Inl e, h1)
         | Inr sec \<Rightarrow>
        (case dict_getitem sec ''address'' of
           Inl e \<Rightarrow> (Inl e, h1)
         | Inr address_val \<Rightarrow>
        (case dict_getitem sec ''login'' of
           Inl e \<Rightarrow> (Inl e, h1)
         | Inr login_val \<Rightarrow>
        (case dict_getitem sec ''password'' of
           Inl e \<Rightarrow> (Inl e, h1)
         | Inr password_val \<Rightarrow>
        (case svc_items sec (map fst sec) t h1 of
           (Some e, h2) \<Rightarrow> (Inl e, h2)
         | (None, h2) \<Rightarrow>
             (Inr \<lparr>tags_ref = t, address = address_val, login = login_val,
                   password = password_val\<rparr>, h2))))))"

section \<open>The main program\<close>

text \<open>
  The database client is a parameter: each of its two calls returns \<open>None\<close> or the
  exception it raises. The calls made are recorded in order.
\<close>

record InfluxDBClient =
  create_database :: "pyval \<Rightarrow> error option"
  write_points :: "pyval \<Rightarrow> SeriesPoint list \<Rightarrow> error option"

datatype sink_call = CreateDatabase pyval | WritePoints pyval "SeriesPoint list"

text \<open>The body of \<^verbatim>\<open>for svc in ConfigFile(args.config).get_svc()\<close> for one appliance.\<close>

definition collect_svc ::
  "connector \<Rightarrow> SeriesBuilder \<Rightarrow> SeriesBuilder \<Rightarrow> Equipment \<Rightarrow> heap
     \<Rightarrow> (error + SeriesBuilder \<times> SeriesBuilder \<times> SeriesPoint list list) \<times> heap" where
  "collect_svc connect pool_series_builder volume_series_builder svc h =
     (let pool_series_builder = add_extras_tags pool_series_builder (tags_ref svc);
          volume_series_builder = add_extras_tags volume_series_builder (tags_ref svc)
      in case SSHCollector_init connect svc of
           Inl e \<Rightarrow> (Inl e, h)
         | Inr svc_pool \<Rightarrow>
        (case SSHCollector_init connect svc of
           Inl e \<Rightarrow> (Inl e, h)
         | Inr svc_volume \<Rightarrow>
        (let svc_pool = add_series_builder svc_pool pool_series_builder;
             svc_volume = add_series_builder svc_volume volume_series_builder
         in case PoolSSHCollector_collect svc_pool h of
              (Inl e, h1) \<Rightarrow> (Inl e, h1)
            | (Inr pool_series, h1) \<Rightarrow>
           (case VolumeSSHCollector_collect svc_volume h1 of
              (Inl e, h2) \<Rightarrow> (Inl e, h2)
            | (Inr volume_series, h2) \<Rightarrow>
                (Inr (pool_series_builder, volume_series_builder,
                      pool_series @ volume_series), h2)))))"

fun svc_loop ::
  "connector \<Rightarrow> config \<Rightarrow> string list \<Rightarrow> SeriesBuilder \<Rightarrow> SeriesBuilder
     \<Rightarrow> SeriesPoint list list \<Rightarrow> heap \<Rightarrow> (error + SeriesPoint list list) \<times> heap" where
  "svc_loop connect conf [] pool_series_builder volume_series_builder series h =
     (Inr series, h)"
| "svc_loop connect conf (section # rest) pool_series_builder volume_series_builder series h =
     (if section = ''INFLUXDB''
      then svc_loop connect conf rest pool_series_builder volume_series_builder series h
      else (case get_svc_section conf section h of
              (Inl e, h1) \<Rightarrow> (Inl e, h1)
            | (Inr svc, h1) \<Rightarrow>
                (case collect_svc connect pool_series_builder volume_series_builder svc h1 of
                   (Inl e, h2) \<Rightarrow> (Inl e, h2)
                 | (Inr (pool_series_builder, volume_series_builder, collected), h2) \<Rightarrow>
                     svc_loop connect conf rest pool_series_builder volume_series_builder
                       (series @ collected) h2)))"

text \<open>\<^verbatim>\<open>for serie in series: client.write_points(...)\<close>\<close>

fun write_loop ::
  "InfluxDBClient \<Rightarrow> pyval \<Rightarrow> SeriesPoint list list \<Rightarrow> sink_call list
     \<Rightarrow> error option \<times> sink_call list" where
  "write_loop client database [] calls = (None, calls)"
| "write_loop client database (serie # series) calls =
     (case write_points client database serie of
        Some e \<Rightarrow> (Some e, calls @ [WritePoints database serie])
      | None \<Rightarrow> write_loop client database series (calls @ [WritePoints database serie]))"

text \<open>
  The program from \<^verbatim>\<open>ConfigFile(args.config)\<close> on: \<open>file\<close> is the configuration file,
  \<open>fixed\<close> the flag \<^verbatim>\<open>--fixed\<close>, \<open>now\<close> the value of \<^verbatim>\<open>timestamp_ms()\<close>. The result is the
  exception that ends the run, if any, and the calls made to the database client.
\<close>

definition main ::
  "config_source \<Rightarrow> bool \<Rightarrow> int \<Rightarrow> connector \<Rightarrow> InfluxDBClient
     \<Rightarrow> error option \<times> sink_call list" where
  "main file fixed now connect client =
     (case ConfigFile_init file of
        Inl e \<Rightarrow> (Some e, [])
      | Inr conf \<Rightarrow>
     (case get_influxdb conf of
        Inl e \<Rightarrow> (Some e, [])
      | Inr configuration \<Rightarrow>
     (let (pool_series_builder, h1) =
            (if fixed then PoolSeriesBuilder (Some now) [] else PoolSeriesBuilder None []);
          (volume_series_builder, h2) =
            (if fixed then VolumeSeriesBuilder (Some now) h1 else VolumeSeriesBuilder None h1)
      in case ConfigFile_init file of
           Inl e \<Rightarrow> (Some e, [])
         | Inr conf2 \<Rightarrow>
        (case svc_loop connect conf2 (sections conf2) pool_series_builder
                volume_series_builder [] h2 of
           (Inl e, h3) \<Rightarrow> (Some e, [])
         | (Inr series, h3) \<Rightarrow>
        (case dict_getitem configuration ''database'' of
           Inl e \<Rightarrow> (Some e, [])
         | Inr database \<Rightarrow>
        (case create_database client database of
           Some e \<Rightarrow>
             (if e = ConnectionError then (Some (SystemExit 1), [CreateDatabase database])
              else (Some e, [CreateDatabase database]))
         | None \<Rightarrow> write_loop client database series [CreateDatabase database]))))))"

section \<open>The lines of a volume detail output\<close>

text \<open>
  The shape of the output of \<^verbatim>\<open>lsvdisk -bytes -delim , <id>\<close> that the statements below
  speak about. A line is either blank or a field name, a comma and a value; both may end
  with line-break characters, as a line read from the remote shell does. A field name or a
  value is plain when it holds no comma and no line break, does not begin with a double
  quote, and is not longer than the field size limit of the \<^verbatim>\<open>csv\<close> module.
\<close>

datatype detail_line = Blank string | Entry string string string

fun render :: "detail_line \<Rightarrow> string" where
  "render (Blank nl) = nl"
| "render (Entry f v nl) = f @ '','' @ v @ nl"

definition plain :: "string \<Rightarrow> bool" where
  "plain s = (list_all (\<lambda>c. c \<noteq> CHR '','' \<and> c \<noteq> CHR 0x0A \<and> c \<noteq> CHR 0x0D) s
              \<and> (case s of [] \<Rightarrow> True | c # _ \<Rightarrow> c \<noteq> CHR 0x22)
              \<and> length s \<le> field_limit)"

definition newlines :: "string \<Rightarrow> bool" where
  "newlines nl = list_all (\<lambda>c. c = CHR 0x0A \<or> c = CHR 0x0D) nl"

fun well_formed_line :: "detail_line \<Rightarrow> bool" where
  "well_formed_line (Blank nl) = newlines nl"
| "well_formed_line (Entry f v nl) = (plain f \<and> plain v \<and> newlines nl)"

fun items_of_lines :: "detail_line list \<Rightarrow> pyval dict" where
  "items_of_lines [] = []"
| "items_of_lines (Blank nl # ls) = items_of_lines ls"
| "items_of_lines (Entry f v nl # ls) = (f, Str v) # items_of_lines ls"

fun row_of_line :: "detail_line \<Rightarrow> string list" where
  "row_of_line (Blank nl) = []"
| "row_of_line (Entry f v nl) = [f, v]"

text \<open>
  For the examples: a session that answers every command with the same lines, a remote shell
  that always connects, and a database client whose calls all succeed.
\<close>

definition session_returning :: "string list \<Rightarrow> session" where
  "session_returning lines command = lines"

definition connector_returning :: "session \<Rightarrow> connector" where
  "connector_returning sess address_arg login_arg password_arg = Inr sess"

definition accepting_client :: InfluxDBClient where
  "accepting_client = \<lparr>create_database = (\<lambda>database. None),
                         write_points = (\<lambda>database points. None)\<rparr>"

section \<open>Properties of the dictionary operations and of \<open>parse\<close>\<close>

lemma update_fresh: "k \<notin> fst ` set al \<Longrightarrow> AList.update k v al = al @ [(k, v)]"
  by (induction al) auto

lemma dict_update_Nil [simp]: "dict_update d [] = d"
  by (simp add: dict_update_def)

lemma dict_update_Cons [simp]:
  "dict_update d ((k, v) # kvs) = dict_update (dict_setitem d k v) kvs"
  by (simp add: dict_update_def)

lemma dict_update_copy:
  "distinct (map fst (acc @ d)) \<Longrightarrow> dict_update acc d = acc @ d"
proof (induction d arbitrary: acc)
  case Nil
  then show ?case by simp
next
  case (Cons kv d)
  obtain k v where kv: "kv = (k, v)" by (cases kv)
  from Cons.prems kv have fresh: "k \<notin> fst ` set acc" by auto
  from Cons.prems kv have "distinct (map fst ((acc @ [(k, v)]) @ d))" by auto
  then have "dict_update (acc @ [(k, v)]) d = (acc @ [(k, v)]) @ d" by (rule Cons.IH)
  with fresh kv show ?case by (simp add: dict_setitem_def update_fresh)
qed

lemma distinct_dict_setitem:
  "distinct (map fst d) \<Longrightarrow> distinct (map fst (dict_setitem d k v))"
  by (simp add: dict_setitem_def distinct_update)

lemma distinct_dict_update:
  "distinct (map fst d) \<Longrightarrow> distinct (map fst (dict_update d kvs))"
  by (induction kvs arbitrary: d) (auto simp: distinct_dict_setitem)

lemma map_of_dict_setitem: "map_of (dict_setitem d k v) = (map_of d)(k \<mapsto> v)"
  by (simp add: dict_setitem_def update_conv')

lemma map_of_dict_update:
  "distinct (map fst kvs) \<Longrightarrow> map_of (dict_update d kvs) = map_of d ++ map_of kvs"
proof (induction kvs arbitrary: d)
  case Nil
  then show ?case by simp
next
  case (Cons kv kvs)
  obtain k v where kv: "kv = (k, v)" by (cases kv)
  from Cons.prems kv have k: "k \<notin> fst ` set kvs" and d: "distinct (map fst kvs)" by auto
  from k have none: "map_of kvs k = None" by (simp add: map_of_eq_None_iff)
  have step: "map_of (dict_update (dict_setitem d k v) kvs) = (map_of d)(k \<mapsto> v) ++ map_of kvs"
    using Cons.IH [OF d] by (simp only: map_of_dict_setitem)
  have "((map_of d)(k \<mapsto> v) ++ map_of kvs) x = (map_of d ++ map_of ((k, v) # kvs)) x" for x
    using none by (cases "x = k") (simp_all add: map_add_def split: option.splits)
  then have "(map_of d)(k \<mapsto> v) ++ map_of kvs = map_of d ++ map_of ((k, v) # kvs)"
    by blast
  with step kv show ?case by (simp only: dict_update_Cons)
qed

lemma dict_update_triv:
  "\<forall>(k, v) \<in> set kvs. map_of d k = Some v \<Longrightarrow> dict_update d kvs = d"
  by (induction kvs arbitrary: d) (auto simp: dict_setitem_def update_triv)

lemma dict_update_idem:
  assumes "distinct (map fst kvs)"
  shows "dict_update (dict_update d kvs) kvs = dict_update d kvs"
proof (rule dict_update_triv, clarify)
  fix k v assume "(k, v) \<in> set kvs"
  with assms have "map_of kvs k = Some v" by simp
  then show "map_of (dict_update d kvs) k = Some v"
    by (simp add: map_of_dict_update [OF assms] map_add_def)
qed


subsection \<open>build_series\<close>

lemma copy_tags_fold:
  "fold (\<lambda>(key, val) s. s\<lparr>tags := dict_setitem (tags s) key val\<rparr>) d s
     = s\<lparr>tags := dict_update (tags s) d\<rparr>"
  by (induction d arbitrary: s) (auto simp: dict_update_def)

lemma build_series_eq:
  "build_series self m d v prefix =
     (case py_int v of
        Inl e \<Rightarrow> Inl e
      | Inr n \<Rightarrow> Inr \<lparr>measurement = prefix @ ''_'' @ m,
                     tags = dict_update [] d,
                     point_fields = [(''value'', n)],
                     time = (if truthy_time (self_fixed_time self)
                             then self_fixed_time self else None)\<rparr>)"
  by (simp add: build_series_def copy_tags_fold Let_def split: sum.splits)

lemma py_int_error: "py_int v = Inl e \<Longrightarrow> e = ValueError \<or> e = TypeError"
  by (cases v) (auto simp: int_of_str_def Let_def split: if_splits prod.splits)

subsection \<open>tags_of_row\<close>

lemma tags_of_row_distinct:
  "tags_of_row data ts acc = Inr rt \<Longrightarrow> distinct (map fst acc) \<Longrightarrow> distinct (map fst rt)"
  by (induction ts arbitrary: acc) (auto simp: distinct_dict_setitem split: sum.splits)

lemma tags_of_row_map_of:
  "tags_of_row data ts acc = Inr rt \<Longrightarrow>
     map_of rt k = (if k \<in> set ts then map_of data k else map_of acc k)"
proof (induction ts arbitrary: acc)
  case Nil
  then show ?case by simp
next
  case (Cons t ts)
  from Cons.prems obtain v where v: "dict_getitem data t = Inr v"
    and rest: "tags_of_row data ts (dict_setitem acc t v) = Inr rt"
    by (auto split: sum.splits)
  from v have dv: "map_of data t = Some v"
    by (auto simp: dict_getitem_def split: option.splits)
  show ?case using Cons.IH [OF rest] dv by (auto simp: map_of_dict_setitem)
qed

lemma tags_of_row_present:
  "tags_of_row data ts acc = Inr rt \<Longrightarrow> t \<in> set ts \<Longrightarrow> dict_contains data t"
  by (induction ts arbitrary: acc)
     (auto simp: dict_getitem_def dict_contains_def split: sum.splits option.splits)

lemma tags_of_row_ok:
  "\<forall>t \<in> set ts. dict_contains data t \<Longrightarrow> \<exists>rt. tags_of_row data ts acc = Inr rt"
  by (induction ts arbitrary: acc)
     (auto simp: dict_getitem_def dict_contains_def split: sum.splits option.splits)

lemma tags_of_row_missing:
  "\<exists>t \<in> set ts. \<not> dict_contains data t \<Longrightarrow>
     tags_of_row data ts acc = Inl (KeyError (hd (filter (\<lambda>t. \<not> dict_contains data t) ts)))"
  by (induction ts arbitrary: acc)
     (auto simp: dict_getitem_def dict_contains_def split: sum.splits option.splits)

subsection \<open>parse_loop\<close>

lemma parse_loop_frame:
  "parse_loop self data prefix mt ms series h = (res, h') \<Longrightarrow>
     length h' = length h \<and> (\<forall>r. r \<noteq> mt \<longrightarrow> h' ! r = h ! r)"
proof (induction ms arbitrary: series h)
  case Nil
  then show ?case by simp
next
  case (Cons m ms)
  show ?case
  proof (cases "dict_contains data m")
    case False
    with Cons show ?thesis by simp
  next
    case True
    show ?thesis
    proof (cases "tags_of_row data (self_tags self) []")
      case (Inl e)
      with True Cons.prems show ?thesis by simp
    next
      case (Inr rt)
      let ?h1 = "assign h mt (dict_update (deref h mt) rt)"
      have h1: "length ?h1 = length h \<and> (\<forall>r. r \<noteq> mt \<longrightarrow> ?h1 ! r = h ! r)"
        by (simp add: assign_def)
      show ?thesis
      proof (cases "dict_getitem data m")
        case (Inl e)
        with True Inr Cons.prems h1 show ?thesis by (auto simp: Let_def)
      next
        case v: (Inr v)
        show ?thesis
        proof (cases "build_series self m (deref ?h1 mt) v prefix")
          case (Inl e)
          with True Inr v Cons.prems h1 show ?thesis by (auto simp: Let_def)
        next
          case p: (Inr p)
          with True Inr v Cons.prems
          have "parse_loop self data prefix mt ms (series @ [p]) ?h1 = (res, h')"
            by (simp add: Let_def)
          from Cons.IH [OF this] h1 show ?thesis by simp
        qed
      qed
    qed
  qed
qed


lemma parse_loop_absent:
  "\<forall>m \<in> set ms. \<not> dict_contains data m \<Longrightarrow>
     parse_loop self data prefix mt ms series h = (Inr series, h)"
  by (induction ms arbitrary: series h) auto

lemma parse_loop_key_error:
  "tags_of_row data (self_tags self) [] = Inl e \<Longrightarrow> \<exists>m \<in> set ms. dict_contains data m \<Longrightarrow>
     parse_loop self data prefix mt ms series h = (Inl e, h)"
proof (induction ms arbitrary: series h)
  case Nil
  then show ?case by simp
next
  case (Cons m ms)
  show ?case
  proof (cases "dict_contains data m")
    case True
    with Cons.prems show ?thesis by simp
  next
    case False
    with Cons.prems have "\<exists>m \<in> set ms. dict_contains data m" by auto
    from Cons.IH [OF Cons.prems(1) this] False show ?thesis by simp
  qed
qed

lemma dict_getitem_contains:
  "dict_contains data m \<Longrightarrow> \<exists>v. map_of data m = Some v \<and> dict_getitem data m = Inr v"
  by (auto simp: dict_contains_def dict_getitem_def)

lemma parse_loop_ok:
  assumes rt: "tags_of_row data (self_tags self) [] = Inr rt"
    and mt: "mt < length h"
    and d': "dict_update (h ! mt) rt = d'"
    and conv: "\<forall>m \<in> set ms. \<forall>v. map_of data m = Some v \<longrightarrow> (\<exists>n. py_int v = Inr n)"
  shows "\<exists>ps h'. parse_loop self data prefix mt ms series h = (Inr (series @ ps), h')
           \<and> list_all2 (\<lambda>p m. \<exists>v. map_of data m = Some v
                                  \<and> build_series self m d' v prefix = Inr p)
                ps (filter (dict_contains data) ms)"
  using mt d' conv
proof (induction ms arbitrary: series h)
  case Nil
  then show ?case by simp
next
  case (Cons m ms)
  from rt have "distinct (map fst rt)" by (rule tags_of_row_distinct) simp
  then have idem: "dict_update (dict_update (h ! mt) rt) rt = dict_update (h ! mt) rt"
    by (rule dict_update_idem)
  from Cons.prems have conv': "\<forall>m \<in> set ms. \<forall>v. map_of data m = Some v \<longrightarrow> (\<exists>n. py_int v = Inr n)"
    by simp
  show ?case
  proof (cases "dict_contains data m")
    case False
    with Cons.IH [OF Cons.prems(1,2) conv', of series] show ?thesis by simp
  next
    case True
    then obtain v where v: "map_of data m = Some v" "dict_getitem data m = Inr v"
      using dict_getitem_contains by blast
    with Cons.prems obtain n where n: "py_int v = Inr n" by auto
    let ?h1 = "assign h mt (dict_update (deref h mt) rt)"
    have h1: "mt < length ?h1" "?h1 ! mt = d'" "deref ?h1 mt = d'"
      using Cons.prems(1,2) by (simp_all add: assign_def deref_def)
    have h1': "dict_update (?h1 ! mt) rt = d'"
      using h1 idem Cons.prems(2) by simp
    from n obtain p where p: "build_series self m d' v prefix = Inr p"
      by (auto simp: build_series_eq)
    from Cons.IH [OF h1(1) h1' conv', of "series @ [p]"]
    obtain ps h' where
      "parse_loop self data prefix mt ms (series @ [p]) ?h1 = (Inr ((series @ [p]) @ ps), h')"
      "list_all2 (\<lambda>p m. \<exists>v. map_of data m = Some v \<and> build_series self m d' v prefix = Inr p)
         ps (filter (dict_contains data) ms)"
      by blast
    with True rt v p h1 show ?thesis
      by (intro exI [of _ "p # ps"] exI [of _ h']) (simp add: Let_def)
  qed
qed

lemma parse_loop_conversion_error:
  assumes rt: "tags_of_row data (self_tags self) [] = Inr rt"
    and bad: "\<exists>m \<in> set ms. \<exists>v e. map_of data m = Some v \<and> py_int v = Inl e"
  shows "\<exists>e h'. parse_loop self data prefix mt ms series h = (Inl e, h')
           \<and> (e = ValueError \<or> e = TypeError)"
  using bad
proof (induction ms arbitrary: series h)
  case Nil
  then show ?case by simp
next
  case (Cons m ms)
  show ?case
  proof (cases "dict_contains data m")
    case False
    then have "map_of data m = None" by (simp add: dict_contains_def)
    with Cons.prems have "\<exists>m \<in> set ms. \<exists>v e. map_of data m = Some v \<and> py_int v = Inl e"
      by auto
    from Cons.IH [OF this, of series h] False show ?thesis by simp
  next
    case True
    then obtain v where v: "map_of data m = Some v" "dict_getitem data m = Inr v"
      using dict_getitem_contains by blast
    let ?h1 = "assign h mt (dict_update (deref h mt) rt)"
    show ?thesis
    proof (cases "py_int v")
      case (Inl e)
      then have "build_series self m (deref ?h1 mt) v prefix = Inl e"
        by (simp add: build_series_eq)
      moreover from Inl have "e = ValueError \<or> e = TypeError" by (rule py_int_error)
      ultimately show ?thesis using True rt v by (simp add: Let_def)
    next
      case (Inr n)
      then obtain p where p: "build_series self m (deref ?h1 mt) v prefix = Inr p"
        by (auto simp: build_series_eq)
      from Inr v Cons.prems
      have "\<exists>m \<in> set ms. \<exists>v e. map_of data m = Some v \<and> py_int v = Inl e" by auto
      from Cons.IH [OF this, of "series @ [p]" ?h1] True rt v p show ?thesis
        by (simp add: Let_def)
    qed
  qed
qed

lemma parse_loop_cong:
  "mt < length h \<Longrightarrow> mt' < length k \<Longrightarrow> h ! mt = k ! mt' \<Longrightarrow>
     fst (parse_loop self data prefix mt ms series h)
       = fst (parse_loop self data prefix mt' ms series k)"
proof (induction ms arbitrary: series h k)
  case Nil
  then show ?case by simp
next
  case (Cons m ms)
  show ?case
  proof (cases "dict_contains data m")
    case False
    with Cons show ?thesis by simp
  next
    case True
    show ?thesis
    proof (cases "tags_of_row data (self_tags self) []")
      case (Inl e)
      with True show ?thesis by simp
    next
      case (Inr rt)
      let ?h1 = "assign h mt (dict_update (deref h mt) rt)"
      let ?k1 = "assign k mt' (dict_update (deref k mt') rt)"
      have eq: "mt < length ?h1" "mt' < length ?k1" "?h1 ! mt = ?k1 ! mt'"
        using Cons.prems by (simp_all add: assign_def deref_def)
      then have der: "deref ?h1 mt = deref ?k1 mt'" by (simp add: deref_def)
      have "fst (parse_loop self data prefix mt ms s ?h1)
              = fst (parse_loop self data prefix mt' ms s ?k1)" for s
        using eq by (rule Cons.IH)
      with True Inr der show ?thesis
        by (simp add: Let_def split: sum.splits)
    qed
  qed
qed


lemma build_series_cong:
  "self_fixed_time self' = self_fixed_time self \<Longrightarrow>
     build_series self' m d v prefix = build_series self m d v prefix"
  by (cases "py_int v") (simp_all add: build_series_eq)

lemma parse_loop_cong2:
  assumes "self_fixed_time self' = self_fixed_time self" "self_tags self' = self_tags self"
  shows "fst (parse_loop self' data prefix mt ms series h)
           = fst (parse_loop self data prefix mt ms series h)
         \<and> snd (parse_loop self' data prefix mt ms series h)
           = snd (parse_loop self data prefix mt ms series h)"
  using assms
  by (induction ms arbitrary: series h)
     (auto simp: Let_def build_series_cong [OF assms(1)] split: sum.splits)

lemma parse_new_dict:
  "parse self data prefix h =
     parse_loop self data prefix (length h) (self_measurements self) []
       (h @ [deref h (self_extras_tags self)])"
  by (simp add: parse_def new_dict_def)

lemma parse_frame:
  assumes "r < length h"
  shows "deref (snd (parse self data prefix h)) r = deref h r"
proof -
  obtain res h' where p: "parse self data prefix h = (res, h')" by (cases "parse self data prefix h")
  then have "parse_loop self data prefix (length h) (self_measurements self) []
       (h @ [deref h (self_extras_tags self)]) = (res, h')" by (simp add: parse_new_dict)
  from parse_loop_frame [OF this] assms have "h' ! r = (h @ [deref h (self_extras_tags self)]) ! r"
    by simp
  with assms p show ?thesis by (simp add: deref_def nth_append)
qed

lemma parse_length:
  "length (snd (parse self data prefix h)) = Suc (length h)"
proof -
  obtain res h' where p: "parse self data prefix h = (res, h')" by (cases "parse self data prefix h")
  then have "parse_loop self data prefix (length h) (self_measurements self) []
       (h @ [deref h (self_extras_tags self)]) = (res, h')" by (simp add: parse_new_dict)
  from parse_loop_frame [OF this] p show ?thesis by simp
qed

lemma parse_cong:
  assumes "deref h (self_extras_tags self) = deref k (self_extras_tags self')"
    and "self_fixed_time self' = self_fixed_time self"
    and "self_tags self' = self_tags self"
    and "self_measurements self' = self_measurements self"
  shows "fst (parse self' data prefix k) = fst (parse self data prefix h)"
proof -
  have "fst (parse self' data prefix k)
      = fst (parse_loop self data prefix (length k) (self_measurements self) []
               (k @ [deref k (self_extras_tags self')]))"
    using parse_loop_cong2 [OF assms(2,3)] assms(4) by (simp add: parse_new_dict)
  also have "\<dots> = fst (parse_loop self data prefix (length h) (self_measurements self) []
               (h @ [deref h (self_extras_tags self)]))"
    by (rule parse_loop_cong) (simp_all add: assms(1))
  finally show ?thesis by (simp add: parse_new_dict)
qed


lemma parse_ok:
  assumes tg: "\<forall>t \<in> set (self_tags self). dict_contains data t"
    and conv: "\<forall>m \<in> set (self_measurements self). \<forall>v. map_of data m = Some v
                 \<longrightarrow> (\<exists>n. py_int v = Inr n)"
  shows "\<exists>rt ps h'. tags_of_row data (self_tags self) [] = Inr rt
           \<and> parse self data prefix h = (Inr ps, h')
           \<and> list_all2 (\<lambda>p m. \<exists>v. map_of data m = Some v
                  \<and> build_series self m (dict_update (deref h (self_extras_tags self)) rt)
                        v prefix = Inr p)
                ps (filter (dict_contains data) (self_measurements self))"
proof -
  from tags_of_row_ok [OF tg] obtain rt where rt: "tags_of_row data (self_tags self) [] = Inr rt"
    by blast
  let ?h1 = "h @ [deref h (self_extras_tags self)]"
  have "length h < length ?h1" by simp
  moreover have "dict_update (?h1 ! length h) rt = dict_update (deref h (self_extras_tags self)) rt"
    by simp
  ultimately show ?thesis
    using parse_loop_ok [OF rt _ _ conv, of "length h" ?h1 _ prefix "[]"] rt
    by (simp add: parse_new_dict)
qed

lemma build_series_Inr:
  "build_series self m d v prefix = Inr p \<Longrightarrow>
     \<exists>n. py_int v = Inr n
       \<and> p = \<lparr>measurement = prefix @ ''_'' @ m,
                tags = dict_update [] d,
                point_fields = [(''value'', n)],
                time = (if truthy_time (self_fixed_time self)
                        then self_fixed_time self else None)\<rparr>"
  by (cases "py_int v") (simp_all add: build_series_eq)

lemma list_all2_measurement:
  "list_all2 (\<lambda>p m. \<exists>v. map_of data m = Some v \<and> build_series self m d v prefix = Inr p) ps ms
     \<Longrightarrow> map measurement ps = map (\<lambda>m. prefix @ ''_'' @ m) ms"
  by (induction ps ms rule: list_all2_induct) (auto dest!: build_series_Inr)

lemma count_named:
  assumes "distinct ms"
  shows "length (filter (\<lambda>x. x = prefix @ ''_'' @ m) (map (\<lambda>m. prefix @ ''_'' @ m) (filter P ms)))
           = (if m \<in> set ms \<and> P m then 1 else 0)"
  using assms by (induction ms) auto

text \<open>
  Claim C1, as amended. When every schema tag name is a key of the row and every schema
  measurement that is a key of the row has an integer-convertible value, \<open>parse\<close> returns
  normally; the names of the returned points are, in schema order, the prefix, an underscore
  and each measurement name that is a key of the row. For a schema without repeated names
  this is exactly one point for a measurement name present in the row and none for an absent
  one.
\<close>

theorem parse_one_point_per_present_measurement:
  assumes "\<forall>t \<in> set (self_tags self). dict_contains data t"
    and "\<forall>m \<in> set (self_measurements self). \<forall>v. map_of data m = Some v
            \<longrightarrow> (\<exists>n. py_int v = Inr n)"
    and "distinct (self_measurements self)"
  shows "\<exists>ps h'. parse self data prefix h = (Inr ps, h')
           \<and> map measurement ps
               = map (\<lambda>m. prefix @ ''_'' @ m)
                   (filter (dict_contains data) (self_measurements self))
           \<and> (\<forall>m \<in> set (self_measurements self).
                 length (filter (\<lambda>p. measurement p = prefix @ ''_'' @ m) ps)
                   = (if dict_contains data m then 1 else 0))"
proof -
  from parse_ok [OF assms(1,2), of prefix h] obtain rt ps h' where
    p: "parse self data prefix h = (Inr ps, h')"
    and all2: "list_all2 (\<lambda>p m. \<exists>v. map_of data m = Some v
                  \<and> build_series self m (dict_update (deref h (self_extras_tags self)) rt)
                        v prefix = Inr p)
                ps (filter (dict_contains data) (self_measurements self))"
    by blast
  from all2 have names: "map measurement ps
      = map (\<lambda>m. prefix @ ''_'' @ m) (filter (dict_contains data) (self_measurements self))"
    by (rule list_all2_measurement)
  have "length (filter (\<lambda>p. measurement p = prefix @ ''_'' @ m) ps)
          = (if dict_contains data m then 1 else 0)"
    if m: "m \<in> set (self_measurements self)" for m
  proof -
    have "length (filter (\<lambda>p. measurement p = prefix @ ''_'' @ m) ps)
            = length (filter (\<lambda>x. x = prefix @ ''_'' @ m) (map measurement ps))"
      by (simp add: filter_map comp_def)
    also have "\<dots> = (if m \<in> set (self_measurements self) \<and> dict_contains data m then 1 else 0)"
      unfolding names using assms(3) by (rule count_named)
    finally show ?thesis using m by simp
  qed
  with p names show ?thesis by blast
qed

lemmas eval_defs = PoolSeriesBuilder_def VolumeSeriesBuilder_def SeriesBuilder_init_def
  new_dict_def deref_def assign_def dict_contains_def dict_getitem_def dict_setitem_def
  dict_update_def parse_def build_series_def truthy_time_def int_of_str_def is_space_def
  is_digit_def digit_value_def max_str_digits_def add_extras_tags_def Let_def

text \<open>
  Witness for C1: a pool row with both tags and two of the ten pool measurements gives the
  two points \<^verbatim>\<open>pool_capacity\<close> and \<^verbatim>\<open>pool_used_capacity\<close>.
\<close>

theorem parse_one_point_per_present_measurement_witness:
  "\<exists>ps h'. parse (fst (PoolSeriesBuilder None []))
               [(''name'', Str ''poolA''), (''id'', Str ''1''), (''capacity'', Str ''1000''),
                (''used_capacity'', Str ''7'')] ''pool'' (snd (PoolSeriesBuilder None []))
             = (Inr ps, h')
         \<and> map measurement ps = [''pool_capacity'', ''pool_used_capacity'']"
  using parse_one_point_per_present_measurement
          [of "fst (PoolSeriesBuilder None [])"
              "[(''name'', Str ''poolA''), (''id'', Str ''1''), (''capacity'', Str ''1000''),
                (''used_capacity'', Str ''7'')]"
              "''pool''" "snd (PoolSeriesBuilder None [])"]
  by (simp add: eval_defs)

text \<open>
  Counterexample to C1 as stated: the row has both pool tags and the measurement
  \<^verbatim>\<open>capacity\<close>, but its value \<^verbatim>\<open>N/A\<close> is not a number, and \<open>parse\<close> raises \<^verbatim>\<open>ValueError\<close>
  instead of producing a point.
\<close>

theorem parse_one_point_per_present_measurement_counterexample:
  "list_all (dict_contains [(''name'', Str ''poolA''), (''id'', Str ''1''), (''capacity'', Str ''N/A'')])
     (self_tags (fst (PoolSeriesBuilder None [])))
   \<and> dict_contains [(''name'', Str ''poolA''), (''id'', Str ''1''), (''capacity'', Str ''N/A'')]
        ''capacity''
   \<and> fst (parse (fst (PoolSeriesBuilder None []))
             [(''name'', Str ''poolA''), (''id'', Str ''1''), (''capacity'', Str ''N/A'')]
             ''pool'' (snd (PoolSeriesBuilder None [])))
       = Inl ValueError"
  by (simp add: eval_defs)


lemma parse_Inr_cases:
  assumes res: "fst (parse self data prefix h) = Inr ps"
  shows "(ps = [] \<and> (\<forall>m \<in> set (self_measurements self). \<not> dict_contains data m))
       \<or> (\<exists>rt. tags_of_row data (self_tags self) [] = Inr rt
            \<and> list_all2 (\<lambda>p m. \<exists>v. map_of data m = Some v
                  \<and> build_series self m (dict_update (deref h (self_extras_tags self)) rt)
                        v prefix = Inr p)
                ps (filter (dict_contains data) (self_measurements self)))"
proof (cases "\<exists>m \<in> set (self_measurements self). dict_contains data m")
  case False
  then have "parse self data prefix h = (Inr [], h @ [deref h (self_extras_tags self)])"
    by (simp add: parse_new_dict parse_loop_absent)
  with res False show ?thesis by simp
next
  case True
  let ?h1 = "h @ [deref h (self_extras_tags self)]"
  show ?thesis
  proof (cases "tags_of_row data (self_tags self) []")
    case (Inl e)
    from parse_loop_key_error [OF Inl True] res show ?thesis
      by (simp add: parse_new_dict)
  next
    case (Inr rt)
    show ?thesis
    proof (cases "\<exists>m \<in> set (self_measurements self). \<exists>v e. map_of data m = Some v \<and> py_int v = Inl e")
      case bad: True
      from parse_loop_conversion_error [OF Inr bad, of prefix "length h" "[]" ?h1] res
      show ?thesis by (auto simp: parse_new_dict)
    next
      case False
      then have conv: "\<forall>m \<in> set (self_measurements self). \<forall>v. map_of data m = Some v
                 \<longrightarrow> (\<exists>n. py_int v = Inr n)"
        by (metis sum.exhaust)
      have "length h < length ?h1" by simp
      from parse_loop_ok [OF Inr this refl conv, of prefix "[]"] res Inr
      show ?thesis by (auto simp: parse_new_dict deref_def)
    qed
  qed
qed

lemma parse_tags_merged:
  assumes ref: "self_extras_tags self < length h"
    and wf: "distinct (map fst (deref h (self_extras_tags self)))"
  shows "deref (snd (parse self data prefix h)) (self_extras_tags self)
           = deref h (self_extras_tags self)
       \<and> (\<forall>ps. fst (parse self data prefix h) = Inr ps \<longrightarrow>
            (\<forall>p \<in> set ps. \<exists>rt. tags_of_row data (self_tags self) [] = Inr rt
                \<and> tags p = dict_update (deref h (self_extras_tags self)) rt
                \<and> (\<forall>k. map_of (tags p) k
                          = (if k \<in> set (self_tags self) then map_of data k
                             else map_of (deref h (self_extras_tags self)) k))))"
proof (intro conjI allI impI ballI)
  show "deref (snd (parse self data prefix h)) (self_extras_tags self)
          = deref h (self_extras_tags self)"
    using ref by (rule parse_frame)
next
  fix ps p
  assume res: "fst (parse self data prefix h) = Inr ps" and p: "p \<in> set ps"
  let ?ex = "deref h (self_extras_tags self)"
  from parse_Inr_cases [OF res] p obtain rt where
    rt: "tags_of_row data (self_tags self) [] = Inr rt"
    and all2: "list_all2 (\<lambda>p m. \<exists>v. map_of data m = Some v
                  \<and> build_series self m (dict_update ?ex rt) v prefix = Inr p)
                ps (filter (dict_contains data) (self_measurements self))"
    by auto
  from all2 p obtain m v where "build_series self m (dict_update ?ex rt) v prefix = Inr p"
    by (auto simp: list_all2_conv_all_nth in_set_conv_nth)
  then have "tags p = dict_update [] (dict_update ?ex rt)"
    by (auto dest!: build_series_Inr)
  moreover have "distinct (map fst ([] @ dict_update ?ex rt))"
    using wf by (simp add: distinct_dict_update)
  ultimately have tp: "tags p = dict_update ?ex rt"
    using dict_update_copy [of "[]" "dict_update ?ex rt"] by simp
  have drt: "distinct (map fst rt)" using rt by (rule tags_of_row_distinct) simp
  have "map_of (tags p) k
          = (if k \<in> set (self_tags self) then map_of data k else map_of ?ex k)" for k
  proof (cases "k \<in> set (self_tags self)")
    case True
    with rt have "dict_contains data k" by (rule tags_of_row_present)
    then obtain v where "map_of data k = Some v" by (auto simp: dict_contains_def)
    with True tags_of_row_map_of [OF rt, of k] show ?thesis
      by (simp add: tp map_of_dict_update [OF drt] map_add_def)
  next
    case False
    with tags_of_row_map_of [OF rt, of k] show ?thesis
      by (simp add: tp map_of_dict_update [OF drt] map_add_def)
  qed
  with rt tp show "\<exists>rt. tags_of_row data (self_tags self) [] = Inr rt
                \<and> tags p = dict_update ?ex rt
                \<and> (\<forall>k. map_of (tags p) k
                          = (if k \<in> set (self_tags self) then map_of data k
                             else map_of ?ex k))"
    by blast
qed

text \<open>
  Claim C2. \<open>parse\<close> leaves the dictionary stored by \<^verbatim>\<open>add_extras_tags\<close> as it was, and
  every point it returns carries the extra tags updated with \<^verbatim>\<open>{tag: data[tag]}\<close> for the
  schema tag names: a schema tag name has the value of the row, any other key has the value
  of the extra tags. The extra tags are a well-formed dictionary (no key twice) at a valid
  reference.
\<close>

theorem parse_tags_extras_then_row:
  assumes ref: "self_extras_tags self < length h"
    and wf: "distinct (map fst (deref h (self_extras_tags self)))"
  shows "deref (snd (parse self data prefix h)) (self_extras_tags self)
           = deref h (self_extras_tags self)
       \<and> (\<forall>ps. fst (parse self data prefix h) = Inr ps \<longrightarrow>
            (\<forall>p \<in> set ps. \<exists>rt. tags_of_row data (self_tags self) [] = Inr rt
                \<and> tags p = dict_update (deref h (self_extras_tags self)) rt
                \<and> (\<forall>k. map_of (tags p) k
                          = (if k \<in> set (self_tags self) then map_of data k
                             else map_of (deref h (self_extras_tags self)) k))))"
  using assms by (rule parse_tags_merged)

text \<open>
  Claim C10. When the row has at least one schema measurement name as a key and lacks at
  least one schema tag name, \<open>parse\<close> raises \<^verbatim>\<open>KeyError\<close> for the first schema tag name that
  is missing; no point is returned.
\<close>

theorem parse_missing_tag_raises_KeyError:
  assumes "\<exists>m \<in> set (self_measurements self). dict_contains data m"
    and "\<exists>t \<in> set (self_tags self). \<not> dict_contains data t"
  shows "fst (parse self data prefix h)
           = Inl (KeyError (hd (filter (\<lambda>t. \<not> dict_contains data t) (self_tags self))))"
proof -
  from assms(2) have "tags_of_row data (self_tags self) []
      = Inl (KeyError (hd (filter (\<lambda>t. \<not> dict_contains data t) (self_tags self))))"
    by (rule tags_of_row_missing)
  from parse_loop_key_error [OF this assms(1)] show ?thesis
    by (simp add: parse_new_dict)
qed

text \<open>
  Claim C8. Calling \<open>parse\<close> a second time on the same builder, row and prefix, in the store
  the first call left, gives the same result as the first call; and so does any call on a
  builder with the same schema and fixed time whose extra tags hold the same items. The
  result is the returned sequence of points, or the exception raised.
\<close>

theorem parse_twice_same_result:
  assumes "self_extras_tags self < length h"
  shows "fst (parse self data prefix (snd (parse self data prefix h)))
           = fst (parse self data prefix h)
       \<and> (\<forall>self' k. deref k (self_extras_tags self') = deref h (self_extras_tags self)
             \<and> self_fixed_time self' = self_fixed_time self
             \<and> self_tags self' = self_tags self
             \<and> self_measurements self' = self_measurements self
           \<longrightarrow> fst (parse self' data prefix k) = fst (parse self data prefix h))"
proof (intro conjI allI impI)
  have "deref h (self_extras_tags self)
          = deref (snd (parse self data prefix h)) (self_extras_tags self)"
    using assms by (simp add: parse_frame)
  then show "fst (parse self data prefix (snd (parse self data prefix h)))
               = fst (parse self data prefix h)"
    by (rule parse_cong) simp_all
next
  fix self' :: SeriesBuilder and k
  assume "deref k (self_extras_tags self') = deref h (self_extras_tags self)
             \<and> self_fixed_time self' = self_fixed_time self
             \<and> self_tags self' = self_tags self
             \<and> self_measurements self' = self_measurements self"
  then show "fst (parse self' data prefix k) = fst (parse self data prefix h)"
    by (intro parse_cong) simp_all
qed


text \<open>
  Witness for C2: the extra tags \<^verbatim>\<open>{svc: SVC1, name: x}\<close> and a row named \<^verbatim>\<open>poolA\<close>. The
  point has \<^verbatim>\<open>name = poolA\<close>, the stored dictionary still has \<^verbatim>\<open>name = x\<close>.
\<close>

theorem parse_tags_extras_then_row_witness:
  "self_extras_tags (add_extras_tags (fst (PoolSeriesBuilder None [])) 1)
     < length (snd (PoolSeriesBuilder None []) @ [[(''svc'', Str ''SVC1''), (''name'', Str ''x'')]])
   \<and> distinct (map fst (deref
         (snd (PoolSeriesBuilder None []) @ [[(''svc'', Str ''SVC1''), (''name'', Str ''x'')]])
         (self_extras_tags (add_extras_tags (fst (PoolSeriesBuilder None [])) 1))))
   \<and> deref (snd (parse (add_extras_tags (fst (PoolSeriesBuilder None [])) 1)
               [(''name'', Str ''poolA''), (''id'', Str ''1''), (''capacity'', Str ''1000'')]
               ''pool''
               (snd (PoolSeriesBuilder None []) @ [[(''svc'', Str ''SVC1''), (''name'', Str ''x'')]])))
        1
       = [(''svc'', Str ''SVC1''), (''name'', Str ''x'')]
   \<and> fst (parse (add_extras_tags (fst (PoolSeriesBuilder None [])) 1)
               [(''name'', Str ''poolA''), (''id'', Str ''1''), (''capacity'', Str ''1000'')]
               ''pool''
               (snd (PoolSeriesBuilder None []) @ [[(''svc'', Str ''SVC1''), (''name'', Str ''x'')]]))
       = Inr [\<lparr>measurement = ''pool_capacity'',
               tags = [(''svc'', Str ''SVC1''), (''name'', Str ''poolA''), (''id'', Str ''1'')],
               point_fields = [(''value'', 1000)],
               time = None\<rparr>]"
  using parse_tags_extras_then_row
          [of "add_extras_tags (fst (PoolSeriesBuilder None [])) 1"
              "snd (PoolSeriesBuilder None []) @ [[(''svc'', Str ''SVC1''), (''name'', Str ''x'')]]"
              "[(''name'', Str ''poolA''), (''id'', Str ''1''), (''capacity'', Str ''1000'')]"
              "''pool''"]
  by (simp add: eval_defs)

text \<open>
  Witness for C10: a pool row with \<^verbatim>\<open>id\<close> and \<^verbatim>\<open>capacity\<close> but no \<^verbatim>\<open>name\<close>.
\<close>

theorem parse_missing_tag_raises_KeyError_witness:
  "(\<exists>m \<in> set (self_measurements (fst (PoolSeriesBuilder None []))).
       dict_contains [(''id'', Str ''1''), (''capacity'', Str ''N/A'')] m)
   \<and> (\<exists>t \<in> set (self_tags (fst (PoolSeriesBuilder None []))).
       \<not> dict_contains [(''id'', Str ''1''), (''capacity'', Str ''N/A'')] t)
   \<and> fst (parse (fst (PoolSeriesBuilder None []))
            [(''id'', Str ''1''), (''capacity'', Str ''N/A'')] ''pool''
            (snd (PoolSeriesBuilder None [])))
       = Inl (KeyError ''name'')"
  using parse_missing_tag_raises_KeyError
          [of "fst (PoolSeriesBuilder None [])"
              "[(''id'', Str ''1''), (''capacity'', Str ''N/A'')]"
              "''pool''" "snd (PoolSeriesBuilder None [])"]
  by (simp add: eval_defs)

text \<open>
  Witness for C8: a volume row parsed a second time after a first call.
\<close>

theorem parse_twice_same_result_witness:
  "self_extras_tags (fst (VolumeSeriesBuilder (Some 1700000000000) []))
     < length (snd (VolumeSeriesBuilder (Some 1700000000000) []))
   \<and> fst (parse (fst (VolumeSeriesBuilder (Some 1700000000000) []))
            [(''id'', Str ''3''), (''name'', Str ''vol1''), (''vdisk_UID'', Str ''6005''),
             (''capacity'', Str ''1024'')] ''volume''
            (snd (parse (fst (VolumeSeriesBuilder (Some 1700000000000) []))
               [(''id'', Str ''3''), (''name'', Str ''vol1''), (''vdisk_UID'', Str ''6005''),
                (''capacity'', Str ''1024'')] ''volume''
               (snd (VolumeSeriesBuilder (Some 1700000000000) [])))))
       = Inr [\<lparr>measurement = ''volume_capacity'',
               tags = [(''name'', Str ''vol1''), (''id'', Str ''3''), (''vdisk_UID'', Str ''6005'')],
               point_fields = [(''value'', 1024)],
               time = Some 1700000000000\<rparr>]"
  using parse_twice_same_result
          [of "fst (VolumeSeriesBuilder (Some 1700000000000) [])"
              "snd (VolumeSeriesBuilder (Some 1700000000000) [])"
              "[(''id'', Str ''3''), (''name'', Str ''vol1''), (''vdisk_UID'', Str ''6005''),
                (''capacity'', Str ''1024'')]" "''volume''"]
  by (simp add: eval_defs)

subsection \<open>The fixed time\<close>

text \<open>
  The \<^verbatim>\<open>time\<close> of a point that \<^verbatim>\<open>_build_series\<close> returns: the fixed time of the builder when
  it is an integer other than zero, and none otherwise.
\<close>

lemma build_series_time:
  "build_series self m d v prefix = Inr p \<Longrightarrow>
   time p = (case self_fixed_time self of
               None \<Rightarrow> None
             | Some t \<Rightarrow> if t = 0 then None else Some t)"
  by (auto dest!: build_series_Inr simp: truthy_time_def split: option.splits)

text \<open>
  Claim C5 at the fixed time 0: the builder is configured with the integer 0, and the point
  it builds has no \<^verbatim>\<open>time\<close>, because \<^verbatim>\<open>if self._fixed_time:\<close> is false for 0.
\<close>

theorem fixed_time_zero_gives_no_timestamp:
  "self_fixed_time (fst (PoolSeriesBuilder (Some 0) [])) = Some 0
   \<and> fst (parse (fst (PoolSeriesBuilder (Some 0) []))
            [(''name'', Str ''poolA''), (''id'', Str ''1''), (''capacity'', Str ''1000'')]
            ''pool'' (snd (PoolSeriesBuilder (Some 0) [])))
       = Inr [\<lparr>measurement = ''pool_capacity'',
               tags = [(''name'', Str ''poolA''), (''id'', Str ''1'')],
               point_fields = [(''value'', 1000)],
               time = None\<rparr>]"
  by (simp add: eval_defs)

section \<open>Properties of the readers and of the configuration\<close>

lemma in_field_run:
  "list_all (\<lambda>c. c \<noteq> CHR '','' \<and> c \<noteq> CHR 0x0A \<and> c \<noteq> CHR 0x0D) s \<Longrightarrow>
   length (buf @ s) \<le> field_limit \<Longrightarrow>
   process_chars \<lparr>rd_state = IN_FIELD, rd_fields = fs, rd_field = buf\<rparr> (s @ rest)
     = process_chars \<lparr>rd_state = IN_FIELD, rd_fields = fs, rd_field = buf @ s\<rparr> rest"
proof (induction s arbitrary: buf)
  case Nil
  then show ?case by simp
next
  case (Cons c s)
  from Cons.prems have c: "c \<noteq> CHR '',''" "c \<noteq> CHR 0x0A" "c \<noteq> CHR 0x0D"
    and s: "list_all (\<lambda>c. c \<noteq> CHR '','' \<and> c \<noteq> CHR 0x0A \<and> c \<noteq> CHR 0x0D) s"
    and len: "length ((buf @ [c]) @ s) \<le> field_limit" by simp_all
  from len have lt: "\<not> field_limit \<le> length buf" by simp
  have step: "parse_process_char \<lparr>rd_state = IN_FIELD, rd_fields = fs, rd_field = buf\<rparr> (Some c)
      = Inr \<lparr>rd_state = IN_FIELD, rd_fields = fs, rd_field = buf @ [c]\<rparr>"
    using c lt by (simp add: parse_process_char_def is_newline_def parse_add_char_def)
  show ?case using step Cons.IH [OF s len] by simp
qed

lemma field_start:
  assumes "plain s" and "st = START_RECORD \<or> st = START_FIELD"
  shows "process_chars \<lparr>rd_state = st, rd_fields = fs, rd_field = []\<rparr> (s @ rest)
     = (if s = [] then process_chars \<lparr>rd_state = st, rd_fields = fs, rd_field = []\<rparr> rest
        else process_chars \<lparr>rd_state = IN_FIELD, rd_fields = fs, rd_field = s\<rparr> rest)"
proof (cases s)
  case Nil
  then show ?thesis by simp
next
  case (Cons c s')
  with assms(1) have c: "c \<noteq> CHR '',''" "c \<noteq> CHR 0x0A" "c \<noteq> CHR 0x0D" "c \<noteq> CHR 0x22"
    and s': "list_all (\<lambda>c. c \<noteq> CHR '','' \<and> c \<noteq> CHR 0x0A \<and> c \<noteq> CHR 0x0D) s'"
    and len: "length ([c] @ s') \<le> field_limit"
    by (simp_all add: plain_def)
  have "parse_process_char \<lparr>rd_state = st, rd_fields = fs, rd_field = []\<rparr> (Some c)
      = Inr \<lparr>rd_state = IN_FIELD, rd_fields = fs, rd_field = [c]\<rparr>"
    using c assms(2)
    by (auto simp: parse_process_char_def start_field_def is_newline_def parse_add_char_def
          field_limit_def)
  with in_field_run [OF s' len, of fs rest] Cons show ?thesis by simp
qed

lemma eat_crnl:
  "newlines nl \<Longrightarrow>
   process_chars \<lparr>rd_state = EAT_CRNL, rd_fields = fs, rd_field = []\<rparr> nl
     = Inr \<lparr>rd_state = START_RECORD, rd_fields = fs, rd_field = []\<rparr>"
  by (induction nl) (auto simp: newlines_def parse_process_char_def is_newline_def)

lemma comma_step:
  assumes "st = IN_FIELD \<or> ((st = START_RECORD \<or> st = START_FIELD) \<and> buf = [])"
  shows "parse_process_char \<lparr>rd_state = st, rd_fields = fs, rd_field = buf\<rparr> (Some (CHR '',''))
     = Inr \<lparr>rd_state = START_FIELD, rd_fields = fs @ [buf], rd_field = []\<rparr>"
  using assms
  by (auto simp: parse_process_char_def start_field_def is_newline_def parse_save_field_def)

lemma end_of_line:
  assumes "newlines nl" and "st = IN_FIELD \<or> (st = START_FIELD \<and> buf = [])"
  shows "process_chars \<lparr>rd_state = st, rd_fields = fs, rd_field = buf\<rparr> nl
     = Inr \<lparr>rd_state = START_RECORD, rd_fields = fs @ [buf], rd_field = []\<rparr>"
proof (cases nl)
  case Nil
  with assms(2) show ?thesis
    by (auto simp: parse_process_char_def start_field_def is_newline_def parse_save_field_def
          end_of_record_def)
next
  case (Cons c cs)
  with assms(1) have c: "c = CHR 0x0A \<or> c = CHR 0x0D" and cs: "newlines cs"
    by (simp_all add: newlines_def)
  have "parse_process_char \<lparr>rd_state = st, rd_fields = fs, rd_field = buf\<rparr> (Some c)
      = Inr \<lparr>rd_state = EAT_CRNL, rd_fields = fs @ [buf], rd_field = []\<rparr>"
    using c assms(2)
    by (auto simp: parse_process_char_def start_field_def is_newline_def parse_save_field_def
          end_of_record_def)
  with eat_crnl [OF cs] Cons show ?thesis by simp
qed

lemma blank_line:
  assumes "newlines nl"
  shows "process_chars parse_reset nl = Inr parse_reset"
proof (cases nl)
  case Nil
  then show ?thesis by (simp add: parse_reset_def parse_process_char_def)
next
  case (Cons c cs)
  with assms have c: "c = CHR 0x0A \<or> c = CHR 0x0D" and cs: "newlines cs"
    by (simp_all add: newlines_def)
  have "parse_process_char parse_reset (Some c)
      = Inr \<lparr>rd_state = EAT_CRNL, rd_fields = [], rd_field = []\<rparr>"
    using c by (auto simp: parse_reset_def parse_process_char_def is_newline_def)
  with eat_crnl [OF cs] Cons show ?thesis by (simp add: parse_reset_def)
qed

lemma process_chars_append_comma:
  "process_chars r (CHR '','' # rest)
     = (case parse_process_char r (Some (CHR '','')) of Inl e \<Rightarrow> Inl e
        | Inr r' \<Rightarrow> process_chars r' rest)"
  by simp

lemma field_line:
  assumes "plain f" "plain v" "newlines nl"
  shows "process_chars parse_reset (f @ CHR '','' # v @ nl)
     = Inr \<lparr>rd_state = START_RECORD, rd_fields = [f, v], rd_field = []\<rparr>"
proof -
  let ?after_comma = "\<lparr>rd_state = START_FIELD, rd_fields = [f], rd_field = []\<rparr>"
  have one: "process_chars parse_reset (f @ CHR '','' # v @ nl) = process_chars ?after_comma (v @ nl)"
  proof (cases "f = []")
    case True
    then show ?thesis
      using comma_step [of START_RECORD "[]" "[]"] by (simp add: parse_reset_def)
  next
    case False
    then show ?thesis
      using field_start [OF assms(1), of START_RECORD "[]" "CHR '','' # v @ nl"]
        comma_step [of IN_FIELD f "[]"]
      by (simp add: parse_reset_def)
  qed
  have two: "process_chars ?after_comma (v @ nl)
      = Inr \<lparr>rd_state = START_RECORD, rd_fields = [f, v], rd_field = []\<rparr>"
  proof (cases "v = []")
    case True
    then show ?thesis using end_of_line [OF assms(3), of START_FIELD "[]" "[f]"] by simp
  next
    case False
    then show ?thesis
      using field_start [OF assms(2), of START_FIELD "[f]" nl]
        end_of_line [OF assms(3), of IN_FIELD v "[f]"]
      by simp
  qed
  from one two show ?thesis by simp
qed

lemma render_line:
  "well_formed_line l \<Longrightarrow>
   process_chars parse_reset (render l)
     = Inr \<lparr>rd_state = START_RECORD, rd_fields = row_of_line l, rd_field = []\<rparr>"
  by (cases l) (simp_all add: blank_line field_line, simp add: parse_reset_def)

lemma reader_rows_rendered:
  "\<forall>l \<in> set ls. well_formed_line l \<Longrightarrow>
   reader_rows parse_reset (map render ls) = (map row_of_line ls, None)"
  by (induction ls) (simp_all add: render_line, simp add: parse_reset_def)

lemma details_of_rendered:
  "details_of_rows (map row_of_line ls) acc = Inr (dict_update acc (items_of_lines ls))"
  by (induction ls arbitrary: acc rule: items_of_lines.induct) simp_all

lemma map_of_dict_update_rev:
  "map_of (dict_update d kvs) = map_of d ++ map_of (rev kvs)"
proof (induction kvs arbitrary: d)
  case Nil
  then show ?case by simp
next
  case (Cons kv kvs)
  obtain k v where kv: "kv = (k, v)" by (cases kv)
  have "map_of (dict_update (dict_setitem d k v) kvs) = (map_of d)(k \<mapsto> v) ++ map_of (rev kvs)"
    by (simp only: Cons.IH map_of_dict_setitem)
  also have "\<dots> = map_of d ++ (map_of [(k, v)] ++ map_of (rev kvs))"
    by (rule ext) (simp add: map_add_def split: option.splits)
  finally show ?case using kv by (simp only: dict_update_Cons rev.simps map_of_append)
qed

text \<open>
  Claim C6, as amended. When every line of the detail output is blank (empty, or line-break
  characters only) or a plain field name, a comma and a plain value, with or without
  line-break characters at its end, \<^verbatim>\<open>_get_volume_details\<close> returns the dictionary that
  maps each field name to its value; blank lines add nothing. Plain means: no comma, no
  line break, no double quote at the start, and no more characters than the field size
  limit of the \<^verbatim>\<open>csv\<close> module. The items are in the order of the lines; a field name that
  comes twice keeps its first place and its last value.
\<close>

theorem get_volume_details_field_value_lines:
  assumes out: "send_command self (''lsvdisk -bytes -delim , '' @ format_s identifier)
                  = map render ls"
    and wf: "\<forall>l \<in> set ls. well_formed_line l"
  shows "\<exists>d. get_volume_details self identifier = Inr d
           \<and> d = dict_update [] (items_of_lines ls)
           \<and> map_of d = map_of (rev (items_of_lines ls))
           \<and> (distinct (map fst (items_of_lines ls)) \<longrightarrow> d = items_of_lines ls)"
proof -
  have rows: "csv_reader (map render ls) = (map row_of_line ls, None)"
    using wf by (simp add: csv_reader_def reader_rows_rendered)
  have "get_volume_details self identifier = Inr (dict_update [] (items_of_lines ls))"
    by (simp only: get_volume_details_def Let_def out rows prod.case details_of_rendered
          sum.case option.case)
  moreover have "map_of (dict_update [] (items_of_lines ls)) = map_of (rev (items_of_lines ls))"
    by (simp add: map_of_dict_update_rev)
  moreover have "dict_update [] (items_of_lines ls) = items_of_lines ls"
    if "distinct (map fst (items_of_lines ls))"
    using dict_update_copy [of "[]" "items_of_lines ls"] that by simp
  ultimately show ?thesis by simp
qed

lemmas eval_csv_defs = csv_reader_def parse_reset_def parse_process_char_def start_field_def
  parse_save_field_def parse_add_char_def is_newline_def end_of_record_def field_limit_def
  get_volume_details_def send_command_def dict_setitem_def dict_update_def plain_def
  newlines_def Let_def session_returning_def

text \<open>
  Counterexample to C6 as stated. Each of the lines \<^verbatim>\<open>id,1\<close>, \<^verbatim>\<open>name,"vol1\<close> and
  \<^verbatim>\<open>capacity,1024\<close> is a field name, a comma and a value, but the value of the second one
  begins with a double quote: the reader takes a quoted field that runs on into the next
  line, and the result maps \<^verbatim>\<open>name\<close> to \<^verbatim>\<open>vol1capacity,1024\<close> and has no key \<^verbatim>\<open>capacity\<close>.
  And a line that holds one space, blank to the eye, is a row of one field, for which
  \<^verbatim>\<open>line[1]\<close> raises \<^verbatim>\<open>IndexError\<close>.
\<close>

theorem get_volume_details_field_value_lines_counterexample:
  "get_volume_details
     \<lparr>self_builder = None, self_address = ''10.0.0.1'', self_user = ''a'',
       self_password = ''b'',
       self_client = session_returning
                       [''id,1'', ''name,'' @ [CHR 0x22] @ ''vol1'', ''capacity,1024'']\<rparr>
     (Str ''1'')
     = Inr [(''id'', Str ''1''), (''name'', Str ''vol1capacity,1024'')]
   \<and> get_volume_details
     \<lparr>self_builder = None, self_address = ''10.0.0.1'', self_user = ''a'',
       self_password = ''b'',
       self_client = session_returning [''id,1'', '' '', ''capacity,1024'']\<rparr>
     (Str ''1'')
     = Inl IndexError"
  by (simp add: eval_csv_defs)

text \<open>
  Witness for C6: the lines \<^verbatim>\<open>id,1\<close>, an empty line, \<^verbatim>\<open>capacity,1024\<close> and \<^verbatim>\<open>name,vol1\<close> give
  \<^verbatim>\<open>{id: 1, capacity: 1024, name: vol1}\<close>.
\<close>

theorem get_volume_details_field_value_lines_witness:
  "send_command \<lparr>self_builder = None, self_address = ''10.0.0.1'', self_user = ''a'',
                  self_password = ''b'',
                  self_client = session_returning [''id,1'', '''', ''capacity,1024'', ''name,vol1'']\<rparr>
      (''lsvdisk -bytes -delim , '' @ format_s (Str ''1''))
     = map render [Entry ''id'' ''1'' '''', Blank '''', Entry ''capacity'' ''1024'' '''',
                   Entry ''name'' ''vol1'' '''']
   \<and> list_all well_formed_line
        [Entry ''id'' ''1'' '''', Blank '''', Entry ''capacity'' ''1024'' '''',
         Entry ''name'' ''vol1'' '''']
   \<and> get_volume_details
        \<lparr>self_builder = None, self_address = ''10.0.0.1'', self_user = ''a'',
          self_password = ''b'',
          self_client = session_returning [''id,1'', '''', ''capacity,1024'', ''name,vol1'']\<rparr>
        (Str ''1'')
       = Inr [(''id'', Str ''1''), (''capacity'', Str ''1024''), (''name'', Str ''vol1'')]"
  using get_volume_details_field_value_lines
          [of "\<lparr>self_builder = None, self_address = ''10.0.0.1'', self_user = ''a'',
                  self_password = ''b'',
                  self_client = session_returning [''id,1'', '''', ''capacity,1024'', ''name,vol1'']\<rparr>"
              "Str ''1''"
              "[Entry ''id'' ''1'' '''', Blank '''', Entry ''capacity'' ''1024'' '''',
                Entry ''name'' ''vol1'' '''']"]
  by (simp add: eval_csv_defs)

text \<open>
  Claim C9. When the section \<^verbatim>\<open>INFLUXDB\<close> has the option \<^verbatim>\<open>database\<close>, the configuration
  that \<^verbatim>\<open>get_influxdb\<close> returns has the database name \<^verbatim>\<open>svc2influxdb\<close> if the option is
  empty and the option's value otherwise; and \<^verbatim>\<open>get_influxdb\<close> does return a configuration
  when the three other options are there too.
\<close>

theorem get_influxdb_database_default:
  assumes "map_of conf ''INFLUXDB'' = Some influxdb"
    and "map_of influxdb ''database'' = Some db"
  shows "(\<forall>configuration. get_influxdb conf = Inr configuration \<longrightarrow>
            dict_getitem configuration ''database''
              = Inr (Str (if db = [] then ''svc2influxdb'' else db)))
       \<and> ((\<exists>a u p. map_of influxdb ''address'' = Some a \<and> map_of influxdb ''username'' = Some u
                  \<and> map_of influxdb ''password'' = Some p)
            \<longrightarrow> (\<exists>configuration. get_influxdb conf = Inr configuration))"
  using assms
  by (auto simp: get_influxdb_def conf_getitem_def dict_getitem_def or_else_def
        split: sum.splits option.splits)

text \<open>
  Witness for C9: an empty \<^verbatim>\<open>database\<close> option, and for comparison the option \<^verbatim>\<open>metrics\<close>.
\<close>

theorem get_influxdb_database_default_witness:
  "map_of [(''INFLUXDB'', [(''address'', ''db.example''), (''username'', ''''),
                           (''password'', ''''), (''database'', '''')])] ''INFLUXDB''
     = Some [(''address'', ''db.example''), (''username'', ''''), (''password'', ''''),
             (''database'', '''')]
   \<and> map_of [(''address'', ''db.example''), (''username'', ''''), (''password'', ''''),
              (''database'', '''')] ''database'' = Some ''''
   \<and> get_influxdb [(''INFLUXDB'', [(''address'', ''db.example''), (''username'', ''''),
                                   (''password'', ''''), (''database'', '''')])]
       = Inr [(''address'', Str ''db.example''), (''username'', NoneVal),
              (''password'', NoneVal), (''database'', Str ''svc2influxdb'')]
   \<and> get_influxdb [(''INFLUXDB'', [(''address'', ''db.example''), (''username'', ''u''),
                                   (''password'', ''p''), (''database'', ''metrics'')])]
       = Inr [(''address'', Str ''db.example''), (''username'', Str ''u''),
              (''password'', Str ''p''), (''database'', Str ''metrics'')]"
  using get_influxdb_database_default
          [of "[(''INFLUXDB'', [(''address'', ''db.example''), (''username'', ''''),
                           (''password'', ''''), (''database'', '''')])]"
              "[(''address'', ''db.example''), (''username'', ''''), (''password'', ''''),
                (''database'', '''')]" "''''"]
  by (simp add: get_influxdb_def conf_getitem_def dict_getitem_def or_else_def)

subsection \<open>get_svc\<close>

lemma svc_items_result:
  assumes "t < length h" and "\<forall>k \<in> set items. map_of sec k \<noteq> None"
  shows "svc_items sec items t h
     = (None, h[t := dict_update (h ! t)
                 (map (\<lambda>k. (k, Str (the (map_of sec k))))
                    (filter (\<lambda>k. k \<notin> set [''name'', ''address'', ''login'', ''password''])
                       items))])"
  using assms
proof (induction items arbitrary: h)
  case Nil
  then show ?case by simp
next
  case (Cons item items)
  from Cons.prems obtain v where v: "map_of sec item = Some v" by auto
  from Cons.prems have rest: "\<forall>k \<in> set items. map_of sec k \<noteq> None" by simp
  show ?case
  proof (cases "item \<notin> set [''name'', ''address'', ''login'', ''password'']")
    case False
    then have "svc_items sec (item # items) t h = svc_items sec items t h"
      and "filter (\<lambda>k. k \<notin> set [''name'', ''address'', ''login'', ''password'']) (item # items)
         = filter (\<lambda>k. k \<notin> set [''name'', ''address'', ''login'', ''password'']) items"
      by (simp_all only: svc_items.simps filter.simps if_False)
    with Cons.IH [OF Cons.prems(1) rest] show ?thesis by (simp only:)
  next
    case True
    let ?h1 = "assign h t (dict_setitem (deref h t) item (Str v))"
    have t1: "t < length ?h1" using Cons.prems(1) by (simp add: assign_def)
    have "dict_getitem sec item = Inr v" using v by (simp add: dict_getitem_def)
    with True have step: "svc_items sec (item # items) t h = svc_items sec items t ?h1"
      by (simp only: svc_items.simps if_True sum.case not_False_eq_True)
    from True have flt:
      "filter (\<lambda>k. k \<notin> set [''name'', ''address'', ''login'', ''password'']) (item # items)
         = item # filter (\<lambda>k. k \<notin> set [''name'', ''address'', ''login'', ''password'']) items"
      by (simp only: filter.simps if_True not_False_eq_True)
    have h1: "?h1 ! t = dict_setitem (h ! t) item (Str v)" "\<And>d. ?h1[t := d] = h[t := d]"
      using Cons.prems(1) by (simp_all add: assign_def deref_def)
    show ?thesis
      unfolding step Cons.IH [OF t1 rest] flt h1 using v by simp
  qed
qed




lemma get_svc_section_result:
  assumes sec: "map_of conf section = Some sec"
    and req: "map_of sec ''address'' = Some a" "map_of sec ''login'' = Some l"
             "map_of sec ''password'' = Some p"
  shows "get_svc_section conf section h
     = (Inr \<lparr>tags_ref = length h, address = a, login = l, password = p\<rparr>,
        h @ [dict_update [(''svc'', Str section)]
               (map (\<lambda>k. (k, Str (the (map_of sec k))))
                  (filter (\<lambda>k. k \<notin> set [''name'', ''address'', ''login'', ''password''])
                     (map fst sec)))])"
proof -
  let ?h1 = "h @ [[(''svc'', Str section)]]"
  have keys: "\<forall>k \<in> set (map fst sec). map_of sec k \<noteq> None"
    by (auto simp: map_of_eq_None_iff)
  have "length h < length ?h1" by simp
  from svc_items_result [OF this keys]
  have items: "svc_items sec (map fst sec) (length h) ?h1
     = (None, h @ [dict_update [(''svc'', Str section)]
               (map (\<lambda>k. (k, Str (the (map_of sec k))))
                  (filter (\<lambda>k. k \<notin> set [''name'', ''address'', ''login'', ''password''])
                     (map fst sec)))])"
    by (simp only: nth_append_length list_update_length)
  have get: "conf_getitem conf section = Inr sec" "dict_getitem sec ''address'' = Inr a"
    "dict_getitem sec ''login'' = Inr l" "dict_getitem sec ''password'' = Inr p"
    using sec req by (simp_all add: conf_getitem_def dict_getitem_def)
  show ?thesis
    by (simp only: get_svc_section_def new_dict_def Let_def prod.case get sum.case items
          option.case)
qed







subsection \<open>collect\<close>

lemma parse_each_Inr_iff:
  assumes "self_extras_tags b < length h"
    and "deref h (self_extras_tags b) = deref h0 (self_extras_tags b)"
  shows "(fst (parse_each (Some b) prefix rows h) = Inr result)
       = list_all2 (\<lambda>series row. fst (parse b row prefix h0) = Inr series) result rows"
  using assms
proof (induction rows arbitrary: result h)
  case Nil
  then show ?case by auto
next
  case (Cons row rows)
  obtain r h1 where p: "parse b row prefix h = (r, h1)" by (cases "parse b row prefix h")
  have same: "fst (parse b row prefix h0) = r"
    using parse_cong [of h0 b h b row prefix] Cons.prems(2) p by simp
  show ?case
  proof (cases r)
    case (Inl e)
    with p same show ?thesis by (auto simp: list_all2_Cons2)
  next
    case (Inr s)
    from p have h1: "h1 = snd (parse b row prefix h)" by simp
    have len: "self_extras_tags b < length h1"
      using Cons.prems(1) by (simp add: h1 parse_length)
    have der: "deref h1 (self_extras_tags b) = deref h0 (self_extras_tags b)"
      using Cons.prems by (simp add: h1 parse_frame)
    note IH = Cons.IH [OF len der]
    show ?thesis
    proof (cases "parse_each (Some b) prefix rows h1")
      case (Pair r2 h2)
      show ?thesis
      proof (cases r2)
        case e: (Inl e)
        with Pair IH have "\<not> list_all2 (\<lambda>series row. fst (parse b row prefix h0) = Inr series)
                               rest rows" for rest
          by (metis fst_conv sum.distinct(1))
        with p Inr Pair e show ?thesis by (auto simp: list_all2_Cons2)
      next
        case rest: (Inr rest)
        with Pair IH have all: "list_all2 (\<lambda>series row. fst (parse b row prefix h0) = Inr series)
                               rest' rows = (rest' = rest)" for rest'
          by (metis fst_conv sum.inject(2))
        with p Inr Pair rest same show ?thesis by (auto simp: list_all2_Cons2)
      qed
    qed
  qed
qed

lemma write_loop_all:
  "\<forall>serie \<in> set series. write_points client database serie = None \<Longrightarrow>
   write_loop client database series calls
     = (None, calls @ map (WritePoints database) series)"
  by (induction series arbitrary: calls) auto

text \<open>
  Claim C3, as amended. \<^verbatim>\<open>collect\<close> returns a sequence with one element for each raw row
  (each data row of the pool listing, each volume detail), in order, and the element is the
  sequence of points that \<open>parse\<close> returns for that row; it returns so exactly when the
  reader raises nothing and \<open>parse\<close> returns for every row. The write loop of the main
  program passes each element, a sequence of points, to one call of \<^verbatim>\<open>write_points\<close>.
\<close>

theorem collect_returns_one_list_per_row:
  assumes "self_builder self = Some b" and "self_extras_tags b < length h"
  shows "(fst (PoolSSHCollector_collect self h) = Inr result)
           = (snd (DictReader (send_command self ''lsmdiskgrp -bytes -delim ,'')) = None
              \<and> list_all2 (\<lambda>series row. fst (parse b row ''pool'' h) = Inr series) result
                   (fst (DictReader (send_command self ''lsmdiskgrp -bytes -delim ,''))))
       \<and> (fst (VolumeSSHCollector_collect self h) = Inr result)
           = (snd (DictReader (send_command self ''lsvdisk -bytes -delim ,'')) = None
              \<and> (\<exists>volume_details.
                    volume_details_loop self
                      (fst (DictReader (send_command self ''lsvdisk -bytes -delim ,''))) []
                      = Inr volume_details
                    \<and> list_all2 (\<lambda>series row. fst (parse b row ''volume'' h) = Inr series)
                         result volume_details))
       \<and> (\<forall>client database calls.
             (\<forall>serie \<in> set result. write_points client database serie = None)
             \<longrightarrow> write_loop client database result calls
                   = (None, calls @ map (WritePoints database) result))"
proof (intro conjI allI impI)
  let ?rd = "DictReader (send_command self ''lsmdiskgrp -bytes -delim ,'')"
  note iff = parse_each_Inr_iff [OF assms(2) refl, of "''pool''" "fst ?rd" result]
  obtain r h1 where pe: "parse_each (Some b) ''pool'' (fst ?rd) h = (r, h1)"
    by (cases "parse_each (Some b) ''pool'' (fst ?rd) h")
  have "fst (PoolSSHCollector_collect self h)
      = (case r of Inl e \<Rightarrow> Inl e
         | Inr res \<Rightarrow> (case snd ?rd of Some e \<Rightarrow> Inl e | None \<Rightarrow> Inr res))"
    using pe assms(1)
    by (simp add: PoolSSHCollector_collect_def Let_def split_beta split: sum.splits option.splits)
  with iff pe show "(fst (PoolSSHCollector_collect self h) = Inr result)
           = (snd ?rd = None
              \<and> list_all2 (\<lambda>series row. fst (parse b row ''pool'' h) = Inr series) result
                   (fst ?rd))"
    by (auto split: sum.splits option.splits)
next
  let ?rd = "DictReader (send_command self ''lsvdisk -bytes -delim ,'')"
  show "(fst (VolumeSSHCollector_collect self h) = Inr result)
           = (snd ?rd = None
              \<and> (\<exists>volume_details.
                    volume_details_loop self (fst ?rd) [] = Inr volume_details
                    \<and> list_all2 (\<lambda>series row. fst (parse b row ''volume'' h) = Inr series)
                         result volume_details))"
  proof (cases "volume_details_loop self (fst ?rd) []")
    case (Inl e)
    then show ?thesis
      by (simp add: VolumeSSHCollector_collect_def Let_def split_beta)
  next
    case (Inr vd)
    note iff = parse_each_Inr_iff [OF assms(2) refl, of "''volume''" vd result]
    show ?thesis
    proof (cases "snd ?rd")
      case None
      with Inr iff assms(1) show ?thesis
        by (simp add: VolumeSSHCollector_collect_def Let_def split_beta)
    next
      case (Some e)
      with Inr show ?thesis
        by (simp add: VolumeSSHCollector_collect_def Let_def split_beta)
    qed
  qed
next
  fix client :: InfluxDBClient and database calls
  assume "\<forall>serie \<in> set result. write_points client database serie = None"
  then show "write_loop client database result calls
               = (None, calls @ map (WritePoints database) result)"
    by (rule write_loop_all)
qed


lemmas eval_collect_defs = PoolSSHCollector_collect_def VolumeSSHCollector_collect_def
  DictReader_def dict_row_def send_command_def csv_reader_def parse_reset_def
  parse_process_char_def start_field_def parse_save_field_def parse_add_char_def
  is_newline_def end_of_record_def field_limit_def session_returning_def

text \<open>
  Counterexample to C3 as stated: a pool listing with one row that has two measurements.
  The sequence returned has one element, which is not a point but the sequence of the two
  points of the row.
\<close>

theorem collect_returns_one_list_per_row_counterexample:
  "fst (PoolSSHCollector_collect
         \<lparr>self_builder = Some (fst (PoolSeriesBuilder None [])), self_address = ''10.0.0.1'',
          self_user = ''a'', self_password = ''b'',
          self_client = session_returning [''name,id,capacity,free_capacity'',
                                           ''poolA,1,1000,400'']\<rparr>
         (snd (PoolSeriesBuilder None [])))
     = Inr [[\<lparr>measurement = ''pool_capacity'',
                tags = [(''name'', Str ''poolA''), (''id'', Str ''1'')],
                point_fields = [(''value'', 1000)], time = None\<rparr>,
               \<lparr>measurement = ''pool_free_capacity'',
                tags = [(''name'', Str ''poolA''), (''id'', Str ''1'')],
                point_fields = [(''value'', 400)], time = None\<rparr>]]"
  by (simp add: eval_defs eval_collect_defs)

text \<open>
  Witness for C3: the same listing; the builder is set and its extra tags are allocated.
\<close>

theorem collect_returns_one_list_per_row_witness:
  "self_builder
       \<lparr>self_builder = Some (fst (PoolSeriesBuilder None [])), self_address = ''10.0.0.1'',
          self_user = ''a'', self_password = ''b'',
          self_client = session_returning [''name,id,capacity,free_capacity'',
                                           ''poolA,1,1000,400'']\<rparr>
     = Some (fst (PoolSeriesBuilder None []))
   \<and> self_extras_tags (fst (PoolSeriesBuilder None [])) < length (snd (PoolSeriesBuilder None []))
   \<and> DictReader [''name,id,capacity,free_capacity'', ''poolA,1,1000,400'']
       = ([[(''name'', Str ''poolA''), (''id'', Str ''1''), (''capacity'', Str ''1000''),
            (''free_capacity'', Str ''400'')]], None)
   \<and> fst (PoolSSHCollector_collect
         \<lparr>self_builder = Some (fst (PoolSeriesBuilder None [])), self_address = ''10.0.0.1'',
          self_user = ''a'', self_password = ''b'',
          self_client = session_returning [''name,id,capacity,free_capacity'',
                                           ''poolA,1,1000,400'']\<rparr>
         (snd (PoolSeriesBuilder None [])))
     = Inr [[\<lparr>measurement = ''pool_capacity'',
                tags = [(''name'', Str ''poolA''), (''id'', Str ''1'')],
                point_fields = [(''value'', 1000)], time = None\<rparr>,
               \<lparr>measurement = ''pool_free_capacity'',
                tags = [(''name'', Str ''poolA''), (''id'', Str ''1'')],
                point_fields = [(''value'', 400)], time = None\<rparr>]]"
  using collect_returns_one_list_per_row
          [of "\<lparr>self_builder = Some (fst (PoolSeriesBuilder None [])), self_address = ''10.0.0.1'',
          self_user = ''a'', self_password = ''b'',
          self_client = session_returning [''name,id,capacity,free_capacity'',
                                           ''poolA,1,1000,400'']\<rparr>"
              "fst (PoolSeriesBuilder None [])" "snd (PoolSeriesBuilder None [])"]
  by (simp add: eval_defs eval_collect_defs)

subsection \<open>Exceptions end the run before any write\<close>

lemma parse_bad_row:
  assumes bad: "\<exists>m \<in> set (self_measurements self). \<exists>v e. map_of data m = Some v \<and> py_int v = Inl e"
  shows "\<exists>e. fst (parse self data prefix h) = Inl e
           \<and> ((\<forall>t \<in> set (self_tags self). dict_contains data t)
                 \<longrightarrow> e = ValueError \<or> e = TypeError)
           \<and> ((\<exists>t \<in> set (self_tags self). \<not> dict_contains data t)
                 \<longrightarrow> e = KeyError (hd (filter (\<lambda>t. \<not> dict_contains data t) (self_tags self))))"
proof (cases "\<forall>t \<in> set (self_tags self). dict_contains data t")
  case True
  from tags_of_row_ok [OF True] obtain rt where rt: "tags_of_row data (self_tags self) [] = Inr rt"
    by blast
  from parse_loop_conversion_error [OF rt bad] True show ?thesis
    by (simp add: parse_new_dict) (metis fst_conv)
next
  case False
  then have missing: "\<exists>t \<in> set (self_tags self). \<not> dict_contains data t" by blast
  then have "tags_of_row data (self_tags self) []
      = Inl (KeyError (hd (filter (\<lambda>t. \<not> dict_contains data t) (self_tags self))))"
    by (rule tags_of_row_missing)
  moreover from bad have "\<exists>m \<in> set (self_measurements self). dict_contains data m"
    by (auto simp: dict_contains_def)
  ultimately show ?thesis using False
    by (simp add: parse_new_dict parse_loop_key_error)
qed

lemma parse_each_fails:
  assumes "data \<in> set rows" and "\<And>h. \<exists>e. fst (parse b data prefix h) = Inl e"
  shows "\<exists>e. fst (parse_each (Some b) prefix rows h) = Inl e"
  using assms(1)
proof (induction rows arbitrary: h)
  case Nil
  then show ?case by simp
next
  case (Cons row rows)
  obtain r h1 where p: "parse b row prefix h = (r, h1)" by (cases "parse b row prefix h")
  show ?case
  proof (cases r)
    case (Inl e)
    with p show ?thesis by simp
  next
    case (Inr s)
    with p assms(2) [of h] have "row \<noteq> data" by auto
    with Cons.prems have "data \<in> set rows" by simp
    from Cons.IH [OF this, of h1] obtain e where "fst (parse_each (Some b) prefix rows h1) = Inl e"
      by blast
    with p Inr show ?thesis
      by (cases "parse_each (Some b) prefix rows h1") simp
  qed
qed

lemma pool_collect_fails:
  assumes "self_builder c = Some b"
    and "data \<in> set (fst (DictReader (send_command c ''lsmdiskgrp -bytes -delim ,'')))"
    and "\<And>h. \<exists>e. fst (parse b data ''pool'' h) = Inl e"
  shows "\<exists>e. fst (PoolSSHCollector_collect c h) = Inl e"
proof -
  from parse_each_fails [OF assms(2,3), of h] obtain e where
    "fst (parse_each (Some b) ''pool''
            (fst (DictReader (send_command c ''lsmdiskgrp -bytes -delim ,''))) h) = Inl e"
    by blast
  then show ?thesis using assms(1)
    by (auto simp: PoolSSHCollector_collect_def Let_def split_beta split: sum.splits prod.splits)
qed

lemma volume_collect_fails:
  assumes "self_builder c = Some b"
    and "volume_details_loop c (fst (DictReader (send_command c ''lsvdisk -bytes -delim ,''))) []
           = Inr details"
    and "data \<in> set details"
    and "\<And>h. \<exists>e. fst (parse b data ''volume'' h) = Inl e"
  shows "\<exists>e. fst (VolumeSSHCollector_collect c h) = Inl e"
proof -
  from parse_each_fails [OF assms(3,4), of h] obtain e where
    "fst (parse_each (Some b) ''volume'' details h) = Inl e"
    by blast
  then show ?thesis using assms(1,2)
    by (auto simp: VolumeSSHCollector_collect_def Let_def split_beta split: option.splits)
qed

lemma get_volume_details_client:
  "self_client c' = self_client c \<Longrightarrow> get_volume_details c' i = get_volume_details c i"
  by (simp add: get_volume_details_def send_command_def)

lemma volume_details_loop_client:
  "self_client c' = self_client c \<Longrightarrow>
   volume_details_loop c' rows acc = volume_details_loop c rows acc"
  by (induction rows arbitrary: acc)
     (auto simp: get_volume_details_client [of c' c] split: sum.splits)


lemma SSHCollector_init_connected:
  "connect (address svc) (login svc) (password svc) = Inr sess \<Longrightarrow>
   SSHCollector_init connect svc
     = Inr \<lparr>self_builder = None, self_address = address svc, self_user = login svc,
            self_password = password svc, self_client = sess\<rparr>"
  by (simp add: SSHCollector_init_def)

lemma SSHCollector_init_refused:
  "connect (address svc) (login svc) (password svc) = Inl e \<Longrightarrow>
   \<exists>e'. SSHCollector_init connect svc = Inl e'"
  by (simp add: SSHCollector_init_def)

lemma collect_svc_builders:
  "collect_svc connect pb vb svc h = (Inr (pb2, vb2, collected), h2) \<Longrightarrow>
   pb2 = pb\<lparr>self_extras_tags := tags_ref svc\<rparr> \<and> vb2 = vb\<lparr>self_extras_tags := tags_ref svc\<rparr>"
  by (auto simp: collect_svc_def add_extras_tags_def Let_def split: sum.splits prod.splits)

lemma collect_svc_pool_fails:
  assumes conn: "connect (address svc) (login svc) (password svc) = Inr sess"
    and row: "data \<in> set (fst (DictReader (sess ''lsmdiskgrp -bytes -delim ,'')))"
    and bad: "\<exists>m \<in> set (self_measurements pb). \<exists>v e. map_of data m = Some v \<and> py_int v = Inl e"
  shows "\<exists>e h2. collect_svc connect pb vb svc h = (Inl e, h2)"
proof -
  let ?b = "add_extras_tags pb (tags_ref svc)"
  let ?c = "add_series_builder
              \<lparr>self_builder = None, self_address = address svc, self_user = login svc,
                self_password = password svc, self_client = sess\<rparr> ?b"
  have b: "self_builder ?c = Some ?b" by (simp add: add_series_builder_def)
  have r: "data \<in> set (fst (DictReader (send_command ?c ''lsmdiskgrp -bytes -delim ,'')))"
    using row by (simp add: send_command_def add_series_builder_def)
  have "\<exists>m \<in> set (self_measurements ?b). \<exists>v e. map_of data m = Some v \<and> py_int v = Inl e"
    using bad by (simp add: add_extras_tags_def)
  then have "\<exists>e. fst (parse ?b data ''pool'' h') = Inl e" for h'
    using parse_bad_row [of ?b data "''pool''" h'] by blast
  from pool_collect_fails [OF b r this, of h]
  obtain e where "fst (PoolSSHCollector_collect ?c h) = Inl e" by blast
  then show ?thesis
    by (cases "PoolSSHCollector_collect ?c h")
       (simp add: collect_svc_def SSHCollector_init_connected [of connect svc sess, OF conn] Let_def)
qed

lemma collect_svc_volume_fails:
  assumes conn: "connect (address svc) (login svc) (password svc) = Inr sess"
    and details: "self_client c = sess"
      "volume_details_loop c (fst (DictReader (sess ''lsvdisk -bytes -delim ,''))) []
         = Inr volume_details"
    and row: "data \<in> set volume_details"
    and bad: "\<exists>m \<in> set (self_measurements vb). \<exists>v e. map_of data m = Some v \<and> py_int v = Inl e"
  shows "\<exists>e h2. collect_svc connect pb vb svc h = (Inl e, h2)"
proof -
  let ?b = "add_extras_tags vb (tags_ref svc)"
  let ?c = "add_series_builder
              \<lparr>self_builder = None, self_address = address svc, self_user = login svc,
                self_password = password svc, self_client = sess\<rparr> ?b"
  let ?p = "add_series_builder
              \<lparr>self_builder = None, self_address = address svc, self_user = login svc,
                self_password = password svc, self_client = sess\<rparr>
              (add_extras_tags pb (tags_ref svc))"
  have b: "self_builder ?c = Some ?b" by (simp add: add_series_builder_def)
  have cl: "self_client ?c = self_client c"
    using details(1) by (simp add: add_series_builder_def)
  have d: "volume_details_loop ?c
             (fst (DictReader (send_command ?c ''lsvdisk -bytes -delim ,''))) []
           = Inr volume_details"
    using details(2) volume_details_loop_client [OF cl]
    by (simp add: send_command_def add_series_builder_def)
  have "\<exists>m \<in> set (self_measurements ?b). \<exists>v e. map_of data m = Some v \<and> py_int v = Inl e"
    using bad by (simp add: add_extras_tags_def)
  then have "\<exists>e. fst (parse ?b data ''volume'' h') = Inl e" for h'
    using parse_bad_row [of ?b data "''volume''" h'] by blast
  from volume_collect_fails [OF b d row this]
  have fails: "\<exists>e. fst (VolumeSSHCollector_collect ?c h') = Inl e" for h' by blast
  show ?thesis
  proof (cases "PoolSSHCollector_collect ?p h")
    case (Pair r h1)
    show ?thesis
    proof (cases r)
      case (Inl e)
      with Pair show ?thesis
        by (simp add: collect_svc_def SSHCollector_init_connected [of connect svc sess, OF conn] Let_def)
    next
      case (Inr ps)
      from fails [of h1] obtain e where "fst (VolumeSSHCollector_collect ?c h1) = Inl e" by blast
      with Pair Inr show ?thesis
        by (cases "VolumeSSHCollector_collect ?c h1")
           (simp add: collect_svc_def SSHCollector_init_connected [of connect svc sess, OF conn] Let_def)
    qed
  qed
qed

lemma svc_loop_fails:
  assumes "s \<in> set secs" and "s \<noteq> ''INFLUXDB''"
    and step: "\<And>rp rv h svc h1. get_svc_section conf s h = (Inr svc, h1) \<Longrightarrow>
                 \<exists>e h2. collect_svc connect (pb\<lparr>self_extras_tags := rp\<rparr>)
                           (vb\<lparr>self_extras_tags := rv\<rparr>) svc h1 = (Inl e, h2)"
  shows "\<exists>e h'. svc_loop connect conf secs (pb\<lparr>self_extras_tags := rpi\<rparr>)
                   (vb\<lparr>self_extras_tags := rvi\<rparr>) series h = (Inl e, h')"
  using assms(1)
proof (induction secs arbitrary: rpi rvi series h)
  case Nil
  then show ?case by simp
next
  case (Cons x secs)
  show ?case
  proof (cases "x = ''INFLUXDB''")
    case True
    with Cons.prems assms(2) have "s \<in> set secs" by auto
    from Cons.IH [OF this] True show ?thesis by simp
  next
    case False
    obtain r h1 where g: "get_svc_section conf x h = (r, h1)"
      by (cases "get_svc_section conf x h")
    show ?thesis
    proof (cases r)
      case (Inl e)
      with g False show ?thesis by simp
    next
      case (Inr svc)
      obtain r2 h2 where c: "collect_svc connect (pb\<lparr>self_extras_tags := rpi\<rparr>)
                               (vb\<lparr>self_extras_tags := rvi\<rparr>) svc h1 = (r2, h2)"
        by (cases "collect_svc connect (pb\<lparr>self_extras_tags := rpi\<rparr>)
                               (vb\<lparr>self_extras_tags := rvi\<rparr>) svc h1")
      show ?thesis
      proof (cases r2)
        case e: (Inl e)
        with g Inr c False show ?thesis by simp
      next
        case ok: (Inr triple)
        obtain pb2 vb2 collected where t: "triple = (pb2, vb2, collected)" by (cases triple)
        from c ok t collect_svc_builders
        have b2: "pb2 = pb\<lparr>self_extras_tags := tags_ref svc\<rparr>"
                 "vb2 = vb\<lparr>self_extras_tags := tags_ref svc\<rparr>"
          by fastforce+
        have "x \<noteq> s"
        proof
          assume "x = s"
          with g Inr step [of h svc h1 rpi rvi] c ok show False by auto
        qed
        with Cons.prems have "s \<in> set secs" by auto
        from Cons.IH [OF this, of "tags_ref svc" "tags_ref svc" "series @ collected" h2]
        show ?thesis using g Inr c ok t b2 False by simp
      qed
    qed
  qed
qed

lemma main_no_sink_call:
  assumes conf: "ConfigFile_init file = Inr conf"
    and fails: "\<And>pb vb h.
        self_measurements pb = self_measurements (fst (PoolSeriesBuilder None [])) \<Longrightarrow>
        self_measurements vb = self_measurements (fst (VolumeSeriesBuilder None [])) \<Longrightarrow>
        \<exists>e h'. svc_loop connect conf (sections conf) pb vb [] h = (Inl e, h')"
  shows "\<exists>e. main file fixed now connect client = (Some e, [])"
proof (cases "get_influxdb conf")
  case (Inl e)
  with conf show ?thesis by (simp add: main_def)
next
  case (Inr configuration)
  let ?ft = "if fixed then Some now else None"
  let ?pb = "fst (PoolSeriesBuilder ?ft [])"
  let ?h1 = "snd (PoolSeriesBuilder ?ft [])"
  let ?vb = "fst (VolumeSeriesBuilder ?ft ?h1)"
  let ?h2 = "snd (VolumeSeriesBuilder ?ft ?h1)"
  have m: "self_measurements ?pb = self_measurements (fst (PoolSeriesBuilder None []))"
    "self_measurements ?vb = self_measurements (fst (VolumeSeriesBuilder None []))"
    by (simp_all add: PoolSeriesBuilder_def VolumeSeriesBuilder_def SeriesBuilder_init_def
          new_dict_def)
  from fails [OF m, of ?h2] obtain e h' where
    "svc_loop connect conf (sections conf) ?pb ?vb [] ?h2 = (Inl e, h')" by blast
  moreover have "main file fixed now connect client
      = (case svc_loop connect conf (sections conf) ?pb ?vb [] ?h2 of
           (Inl e, h3) \<Rightarrow> (Some e, [])
         | (Inr series, h3) \<Rightarrow>
             (case dict_getitem configuration ''database'' of
                Inl e \<Rightarrow> (Some e, [])
              | Inr database \<Rightarrow>
                  (case create_database client database of
                     Some e \<Rightarrow>
                       (if e = ConnectionError
                        then (Some (SystemExit 1), [CreateDatabase database])
                        else (Some e, [CreateDatabase database]))
                   | None \<Rightarrow> write_loop client database series [CreateDatabase database])))"
    using conf Inr by (cases fixed) (simp_all add: main_def split_beta)
  ultimately show ?thesis by simp
qed

lemma svc_loop_fails_start:
  assumes "s \<in> set secs" and "s \<noteq> ''INFLUXDB''"
    and step: "\<And>rp rv h svc h1. get_svc_section conf s h = (Inr svc, h1) \<Longrightarrow>
                 \<exists>e h2. collect_svc connect (pb\<lparr>self_extras_tags := rp\<rparr>)
                           (vb\<lparr>self_extras_tags := rv\<rparr>) svc h1 = (Inl e, h2)"
  shows "\<exists>e h'. svc_loop connect conf secs pb vb series h = (Inl e, h')"
  using svc_loop_fails [where rpi = "self_extras_tags pb" and rvi = "self_extras_tags vb"
          and series = series and h = h, OF assms]
  by simp


lemma main_aborts_on_bad_row:
  assumes bad: "\<exists>m \<in> set (self_measurements self). \<exists>v e. map_of data m = Some v \<and> py_int v = Inl e"
    and conf: "ConfigFile_init file = Inr conf"
    and s: "s \<in> set (sections conf)" "s \<noteq> ''INFLUXDB''"
    and sec: "map_of conf s = Some sec" "map_of sec ''address'' = Some a"
             "map_of sec ''login'' = Some l" "map_of sec ''password'' = Some p"
    and conn: "connect a l p = Inr sess"
    and row: "(self_measurements self = self_measurements (fst (PoolSeriesBuilder None []))
                \<and> data \<in> set (fst (DictReader (sess ''lsmdiskgrp -bytes -delim ,''))))
            \<or> (self_measurements self = self_measurements (fst (VolumeSeriesBuilder None []))
                \<and> (\<exists>c volume_details. self_client c = sess
                      \<and> volume_details_loop c
                            (fst (DictReader (sess ''lsvdisk -bytes -delim ,''))) []
                          = Inr volume_details
                      \<and> data \<in> set volume_details))"
  shows "\<exists>e. main file fixed now connect client = (Some e, [])"
proof (rule main_no_sink_call [OF conf])
  fix pb vb :: SeriesBuilder and h :: heap
  assume m: "self_measurements pb = self_measurements (fst (PoolSeriesBuilder None []))"
    "self_measurements vb = self_measurements (fst (VolumeSeriesBuilder None []))"
  show "\<exists>e h'. svc_loop connect conf (sections conf) pb vb [] h = (Inl e, h')"
  proof (rule svc_loop_fails_start [OF s])
    fix rp rv :: ref and h0 h1 :: heap and svc
    assume g: "get_svc_section conf s h0 = (Inr svc, h1)"
    from get_svc_section_result [OF sec, of h0] g
    have svc: "address svc = a" "login svc = l" "password svc = p" by auto
    with conn have c: "connect (address svc) (login svc) (password svc) = Inr sess" by simp
    from row show "\<exists>e h2. collect_svc connect (pb\<lparr>self_extras_tags := rp\<rparr>)
                           (vb\<lparr>self_extras_tags := rv\<rparr>) svc h1 = (Inl e, h2)"
    proof
      assume pool: "self_measurements self = self_measurements (fst (PoolSeriesBuilder None []))
                \<and> data \<in> set (fst (DictReader (sess ''lsmdiskgrp -bytes -delim ,'')))"
      with bad m have "\<exists>m \<in> set (self_measurements (pb\<lparr>self_extras_tags := rp\<rparr>)).
                          \<exists>v e. map_of data m = Some v \<and> py_int v = Inl e"
        by simp
      with pool show ?thesis
        using collect_svc_pool_fails [of connect svc sess data "pb\<lparr>self_extras_tags := rp\<rparr>", OF c]
        by blast
    next
      assume vol: "self_measurements self = self_measurements (fst (VolumeSeriesBuilder None []))
                \<and> (\<exists>c volume_details. self_client c = sess
                      \<and> volume_details_loop c
                            (fst (DictReader (sess ''lsvdisk -bytes -delim ,''))) []
                          = Inr volume_details
                      \<and> data \<in> set volume_details)"
      with bad m have b: "\<exists>m \<in> set (self_measurements (vb\<lparr>self_extras_tags := rv\<rparr>)).
                          \<exists>v e. map_of data m = Some v \<and> py_int v = Inl e"
        by simp
      from vol obtain cl volume_details where
        d: "self_client cl = sess"
           "volume_details_loop cl (fst (DictReader (sess ''lsvdisk -bytes -delim ,''))) []
              = Inr volume_details"
           "data \<in> set volume_details"
        by blast
      show ?thesis
        using collect_svc_volume_fails
                [of connect svc sess cl volume_details data "vb\<lparr>self_extras_tags := rv\<rparr>",
                 OF c d b]
        by blast
    qed
  qed
qed

lemma build_series_not_convertible:
  "py_int v = Inl e \<Longrightarrow>
   build_series self m tg v prefix = Inl e \<and> (e = ValueError \<or> e = TypeError)"
  by (simp add: build_series_eq py_int_error)

text \<open>
  Claim C4, as amended. Let a schema measurement name map, in the row, to a value that
  \<^verbatim>\<open>int\<close> does not convert. Building a point from such a value raises the \<^verbatim>\<open>ValueError\<close> or
  \<^verbatim>\<open>TypeError\<close> of \<^verbatim>\<open>int\<close>. \<open>parse\<close> raises on the row: that conversion error when every
  schema tag name is a key of the row, and otherwise the \<^verbatim>\<open>KeyError\<close> of the first missing
  tag name, which comes before any conversion. Nothing catches the exception: the
  comprehension of \<^verbatim>\<open>collect\<close> raises when the row is among its rows, and a run in which
  the row is in the pool listing, or among the volume details, of an appliance ends with an
  exception before any call to the database client.
\<close>

theorem non_numeric_measurement_aborts_run:
  assumes bad: "\<exists>m \<in> set (self_measurements self). \<exists>v e. map_of data m = Some v \<and> py_int v = Inl e"
  shows "(\<forall>m tg v e. py_int v = Inl e \<longrightarrow>
            build_series self m tg v prefix = Inl e \<and> (e = ValueError \<or> e = TypeError))
       \<and> (\<exists>e. fst (parse self data prefix h) = Inl e
             \<and> ((\<forall>t \<in> set (self_tags self). dict_contains data t)
                   \<longrightarrow> e = ValueError \<or> e = TypeError)
             \<and> ((\<exists>t \<in> set (self_tags self). \<not> dict_contains data t)
                   \<longrightarrow> e = KeyError (hd (filter (\<lambda>t. \<not> dict_contains data t)
                                            (self_tags self)))))
       \<and> (\<forall>rows. data \<in> set rows \<longrightarrow>
             (\<exists>e. fst (parse_each (Some self) prefix rows h) = Inl e))
       \<and> (\<forall>file fixed now connect client conf s sec a l p sess.
             ConfigFile_init file = Inr conf
             \<and> s \<in> set (sections conf) \<and> s \<noteq> ''INFLUXDB''
             \<and> map_of conf s = Some sec \<and> map_of sec ''address'' = Some a
             \<and> map_of sec ''login'' = Some l \<and> map_of sec ''password'' = Some p
             \<and> connect a l p = Inr sess
             \<and> ((self_measurements self = self_measurements (fst (PoolSeriesBuilder None []))
                   \<and> data \<in> set (fst (DictReader (sess ''lsmdiskgrp -bytes -delim ,''))))
                \<or> (self_measurements self = self_measurements (fst (VolumeSeriesBuilder None []))
                   \<and> (\<exists>c volume_details. self_client c = sess
                         \<and> volume_details_loop c
                               (fst (DictReader (sess ''lsvdisk -bytes -delim ,''))) []
                             = Inr volume_details
                         \<and> data \<in> set volume_details)))
             \<longrightarrow> (\<exists>e. main file fixed now connect client = (Some e, [])))"
proof (intro conjI allI impI)
  fix m tg v e
  assume "py_int v = Inl e"
  then show "build_series self m tg v prefix = Inl e" "e = ValueError \<or> e = TypeError"
    by (simp_all add: build_series_not_convertible)
next
  show "\<exists>e. fst (parse self data prefix h) = Inl e
             \<and> ((\<forall>t \<in> set (self_tags self). dict_contains data t)
                   \<longrightarrow> e = ValueError \<or> e = TypeError)
             \<and> ((\<exists>t \<in> set (self_tags self). \<not> dict_contains data t)
                   \<longrightarrow> e = KeyError (hd (filter (\<lambda>t. \<not> dict_contains data t)
                                            (self_tags self))))"
    using bad by (rule parse_bad_row)
next
  fix rows
  assume "data \<in> set rows"
  moreover have "\<exists>e. fst (parse self data prefix h') = Inl e" for h'
    using parse_bad_row [OF bad, of prefix h'] by blast
  ultimately show "\<exists>e. fst (parse_each (Some self) prefix rows h) = Inl e"
    by (rule parse_each_fails)
next
  fix src fixed now and connect :: connector and client :: InfluxDBClient
    and conf s sec a l p sess
  assume "ConfigFile_init src = Inr conf
             \<and> s \<in> set (sections conf) \<and> s \<noteq> ''INFLUXDB''
             \<and> map_of conf s = Some sec \<and> map_of sec ''address'' = Some a
             \<and> map_of sec ''login'' = Some l \<and> map_of sec ''password'' = Some p
             \<and> connect a l p = Inr sess
             \<and> ((self_measurements self = self_measurements (fst (PoolSeriesBuilder None []))
                   \<and> data \<in> set (fst (DictReader (sess ''lsmdiskgrp -bytes -delim ,''))))
                \<or> (self_measurements self = self_measurements (fst (VolumeSeriesBuilder None []))
                   \<and> (\<exists>c volume_details. self_client c = sess
                         \<and> volume_details_loop c
                               (fst (DictReader (sess ''lsvdisk -bytes -delim ,''))) []
                             = Inr volume_details
                         \<and> data \<in> set volume_details)))"
  then show "\<exists>e. main src fixed now connect client = (Some e, [])"
    using main_aborts_on_bad_row [OF bad, of src conf s sec a l p connect sess fixed now client]
    by blast
qed

lemmas eval_main_defs = main_def ConfigFile_init_def get_influxdb_def conf_getitem_def
  or_else_def sections_def get_svc_section_def collect_svc_def SSHCollector_init_def
  add_series_builder_def connector_returning_def accepting_client_def

text \<open>
  Counterexample to C4 as stated: the pool row \<^verbatim>\<open>{capacity: N/A}\<close> has a measurement that is
  not a number, but it has no \<^verbatim>\<open>name\<close>, and \<open>parse\<close> raises \<^verbatim>\<open>KeyError\<close>, not the error of the
  conversion.
\<close>

theorem non_numeric_measurement_aborts_run_counterexample:
  "''capacity'' \<in> set (self_measurements (fst (PoolSeriesBuilder None [])))
   \<and> map_of [(''capacity'', Str ''N/A'')] ''capacity'' = Some (Str ''N/A'')
   \<and> py_int (Str ''N/A'') = Inl ValueError
   \<and> fst (parse (fst (PoolSeriesBuilder None [])) [(''capacity'', Str ''N/A'')] ''pool''
            (snd (PoolSeriesBuilder None [])))
       = Inl (KeyError ''name'')"
  by (simp add: eval_defs)

text \<open>
  Witness for C4: the pool listing of the appliance \<^verbatim>\<open>SVC1\<close> has the row
  \<^verbatim>\<open>poolA,1,N/A\<close>; the run ends with \<^verbatim>\<open>ValueError\<close> and no call to the client.
\<close>

theorem non_numeric_measurement_aborts_run_witness:
  "''capacity'' \<in> set (self_measurements (fst (PoolSeriesBuilder None [])))
   \<and> map_of [(''name'', Str ''poolA''), (''id'', Str ''1''), (''capacity'', Str ''N/A'')]
        ''capacity'' = Some (Str ''N/A'')
   \<and> py_int (Str ''N/A'') = Inl ValueError
   \<and> fst (parse (fst (PoolSeriesBuilder None []))
            [(''name'', Str ''poolA''), (''id'', Str ''1''), (''capacity'', Str ''N/A'')]
            ''pool'' (snd (PoolSeriesBuilder None [])))
       = Inl ValueError
   \<and> DictReader [''name,id,capacity'', ''poolA,1,N/A'']
       = ([[(''name'', Str ''poolA''), (''id'', Str ''1''), (''capacity'', Str ''N/A'')]], None)
   \<and> main (Parsed [(''INFLUXDB'', [(''address'', ''db''), (''username'', ''''),
                                    (''password'', ''''), (''database'', '''')]),
                    (''SVC1'', [(''address'', ''10.0.0.1''), (''login'', ''a''),
                                (''password'', ''b'')])])
        True 1700000000000
        (connector_returning (session_returning [''name,id,capacity'', ''poolA,1,N/A'']))
        accepting_client
       = (Some ValueError, [])"
proof -
  have bad: "\<exists>m \<in> set (self_measurements (fst (PoolSeriesBuilder None []))).
               \<exists>v e. map_of [(''name'', Str ''poolA''), (''id'', Str ''1''),
                              (''capacity'', Str ''N/A'')] m = Some v \<and> py_int v = Inl e"
    by (rule bexI [of _ "''capacity''"]) (simp_all add: eval_defs)
  note inst = non_numeric_measurement_aborts_run [OF bad, of "''pool''"
               "snd (PoolSeriesBuilder None [])"]
  have run: "main (Parsed [(''INFLUXDB'', [(''address'', ''db''), (''username'', ''''),
                                    (''password'', ''''), (''database'', '''')]),
                    (''SVC1'', [(''address'', ''10.0.0.1''), (''login'', ''a''),
                                (''password'', ''b'')])])
        True 1700000000000
        (connector_returning (session_returning [''name,id,capacity'', ''poolA,1,N/A'']))
        accepting_client
       = (Some ValueError, [])"
    by (simp add: eval_defs eval_collect_defs eval_main_defs)
  have rest: "''capacity'' \<in> set (self_measurements (fst (PoolSeriesBuilder None [])))
   \<and> map_of [(''name'', Str ''poolA''), (''id'', Str ''1''), (''capacity'', Str ''N/A'')]
        ''capacity'' = Some (Str ''N/A'')
   \<and> py_int (Str ''N/A'') = Inl ValueError
   \<and> fst (parse (fst (PoolSeriesBuilder None []))
            [(''name'', Str ''poolA''), (''id'', Str ''1''), (''capacity'', Str ''N/A'')]
            ''pool'' (snd (PoolSeriesBuilder None [])))
       = Inl ValueError
   \<and> DictReader [''name,id,capacity'', ''poolA,1,N/A'']
       = ([[(''name'', Str ''poolA''), (''id'', Str ''1''), (''capacity'', Str ''N/A'')]], None)"
    by (simp add: eval_defs eval_collect_defs)
  from inst rest run show ?thesis by blast
qed

end
